theory Spec2Isabelle
  imports Complex_Main "HOL-Library.Log_Nat" "HOL-Library.Multiset" "HOL-Library.AList"
begin

section \<open>Python values used by the duration calculator\<close>

text \<open>
  The exceptions of the modelled code: an out-of-range list index, a missing dictionary
  key, the \<open>RuntimeError\<close> that \<open>main\<close> raises on an empty file list, and the
  \<open>ValueError\<close> of a process pool without processes.
\<close>

datatype py_error = IndexError | KeyError | RuntimeError | ValueError

subsection \<open>Floats\<close>

text \<open>
  A Python float is an IEEE binary64 number. A finite one is modelled by the rational it
  denotes, and every operation rounds its exact result to the nearest binary64 number, ties
  to the even significand. Infinities and NaN are not represented: the times of an
  alignment file are finite and small.
\<close>

type_synonym float = rat

definition round_half_even :: "rat \<Rightarrow> int" where
  "round_half_even y =
     (let f = \<lfloor>y\<rfloor>; d = y - of_int f
      in if d < 1 / 2 then f else if 1 / 2 < d then f + 1 else if even f then f else f + 1)"

text \<open>\<open>ilog2 x\<close> is the exponent \<open>e\<close> with \<open>2^e \<le> |x| < 2^(e+1)\<close>, for \<open>x \<noteq> 0\<close>.\<close>

definition ilog2 :: "rat \<Rightarrow> int" where
  "ilog2 x =
     (let (p, q) = quotient_of \<bar>x\<bar>; k = bitlen p - bitlen q
      in if of_int 2 powi k \<le> \<bar>x\<bar> then k else k - 1)"

text \<open>
  \<open>fl x\<close> is the binary64 number nearest to \<open>x\<close>: 53 significant bits, the exponent not
  below that of the subnormal numbers.
\<close>

definition fl :: "rat \<Rightarrow> float" where
  "fl x =
     (if x = 0 then 0
      else let e = max (ilog2 x) (- 1022); q = of_int 2 powi (e - 52)
           in of_int (round_half_even (x / q)) * q)"

definition fadd :: "float \<Rightarrow> float \<Rightarrow> float" where
  "fadd x y = fl (x + y)"

definition fsub :: "float \<Rightarrow> float \<Rightarrow> float" where
  "fsub x y = fl (x - y)"

text \<open>
  \<open>round(x, 2)\<close> on a float: the exact value of \<open>x\<close> is rounded to two decimals (ties to
  even) and the decimal is read back as a float.
\<close>

definition py_round2 :: "float \<Rightarrow> float" where
  "py_round2 x = fl (of_int (round_half_even (x * 100)) / 100)"

subsection \<open>Strings\<close>

text \<open>
  A \<open>char\<close> stands for a code point below 256. \<open>str.isdigit\<close> holds there of the ASCII
  digits and of the superscripts one, two and three.
\<close>

definition isdigit :: "char \<Rightarrow> bool" where
  "isdigit c =
     (let n = (of_char c :: nat) in (48 \<le> n \<and> n \<le> 57) \<or> n = 178 \<or> n = 179 \<or> n = 185)"

text \<open>\<open>os.path.basename(p)\<close>: what follows the last slash.\<close>

definition basename :: "string \<Rightarrow> string" where
  "basename p = rev (takeWhile (\<lambda>c. c \<noteq> CHR ''/'') (rev p))"

text \<open>\<open>s.split('.')[0]\<close>: what precedes the first dot.\<close>

definition split_dot_first :: "string \<Rightarrow> string" where
  "split_dot_first s = takeWhile (\<lambda>c. c \<noteq> CHR ''.'') s"

section \<open>The alignment data\<close>

record interval =
  minTime :: float
  maxTime :: float
  mark :: string

text \<open>
  A tier is the list of its intervals, a TextGrid the list of its tiers. The parser
  \<open>TextGrid.fromFile\<close> is not part of the program: it is a parameter \<open>fromFile\<close> from the
  file's path to its tiers.
\<close>

type_synonym tier = "interval list"

type_synonym text_grid = "tier list"

text \<open>
  The two dictionaries of the program, from utterance id to token list and to duration
  list, are maps. The order of their entries is not represented; the program reads them
  by key only.
\<close>

type_synonym idx2text = "string \<rightharpoonup> string list"

type_synonym idx2duration = "string \<rightharpoonup> float list"

section \<open>\<open>cal_duration_by_tg\<close>\<close>

definition silence_marks :: "string list" where
  "silence_marks = [''sp'', '''', ''sil'']"

text \<open>
  The dictionary comprehension over the word tier: a later word with the same rounded end
  time overwrites an earlier one.
\<close>

definition word_boundary_dict :: "tier \<Rightarrow> (float \<rightharpoonup> bool)" where
  "word_boundary_dict words =
     fold (\<lambda>word d. d(py_round2 (maxTime word) \<mapsto> (mark word \<notin> set silence_marks)))
       words Map.empty"

text \<open>
  The token of a non-silence phoneme: the stress digit is cut off when stress is not
  retained, and \<open>spn\<close> becomes \<open><unk>\<close>. The mark is not empty here, the empty mark
  being a silence mark, so that \<open>mark[-1]\<close> does not raise.
\<close>

definition phn_token :: "bool \<Rightarrow> string \<Rightarrow> string" where
  "phn_token retain_stress m =
     (let t = (if \<not> retain_stress \<and> isdigit (last m) then butlast m else m)
      in if t \<noteq> ''spn'' then t else ''<unk>'')"

text \<open>
  The branch on the phoneme's mark. The state is the pair of the utterance's token list
  and duration list. \<open>duration[-1] += phn_duration\<close> raises on an empty list.
\<close>

definition handle_phn ::
  "bool \<Rightarrow> interval \<Rightarrow> float \<Rightarrow> string list \<times> float list
    \<Rightarrow> py_error + string list \<times> float list" where
  "handle_phn retain_stress phn phn_duration st =
     (case st of (text, duration) \<Rightarrow>
        if mark phn \<notin> set silence_marks then
          Inr (text @ [phn_token retain_stress (mark phn)], duration @ [phn_duration])
        else if length text = 0 \<or> last text \<noteq> ''<space>'' then
          Inr (text @ [''<space>''], duration @ [phn_duration])
        else if duration = [] then Inl IndexError
        else Inr (text, butlast duration @ [fadd (last duration) phn_duration]))"

text \<open>
  The word-boundary insertion after the branch; \<open>round(0, 2)\<close> is the integer \<open>0\<close>, which
  equals the float zero and adds to a float as it does.
\<close>

definition boundary_insert ::
  "(float \<rightharpoonup> bool) \<Rightarrow> float \<Rightarrow> string list \<times> float list \<Rightarrow> string list \<times> float list" where
  "boundary_insert wbd phn_boundary st =
     (case st of (text, duration) \<Rightarrow>
        if wbd phn_boundary = Some True then (text @ [''<space>''], duration @ [0])
        else (text, duration))"

text \<open>One iteration of the loop over the phoneme tier.\<close>

definition scan_phn ::
  "bool \<Rightarrow> (float \<rightharpoonup> bool) \<Rightarrow> string list \<times> float list \<Rightarrow> interval
    \<Rightarrow> py_error + string list \<times> float list" where
  "scan_phn retain_stress wbd st phn =
     (let phn_duration = py_round2 (fsub (maxTime phn) (minTime phn));
          phn_boundary = py_round2 (maxTime phn)
      in case handle_phn retain_stress phn phn_duration st of
           Inl e \<Rightarrow> Inl e
         | Inr st' \<Rightarrow> Inr (boundary_insert wbd phn_boundary st'))"

fun scan_phns ::
  "bool \<Rightarrow> (float \<rightharpoonup> bool) \<Rightarrow> string list \<times> float list \<Rightarrow> tier
    \<Rightarrow> py_error + string list \<times> float list" where
  "scan_phns retain_stress wbd st [] = Inr st"
| "scan_phns retain_stress wbd st (phn # phns) =
     (case scan_phn retain_stress wbd st phn of
        Inl e \<Rightarrow> Inl e
      | Inr st' \<Rightarrow> scan_phns retain_stress wbd st' phns)"

text \<open>
  The token and duration lists of one file: tier 0 is the word tier, tier 1 the phoneme
  tier, and a TextGrid with fewer tiers raises.
\<close>

definition tg_utterance ::
  "(string \<Rightarrow> text_grid) \<Rightarrow> bool \<Rightarrow> string \<Rightarrow> py_error + string list \<times> float list" where
  "tg_utterance fromFile retain_stress tg_file =
     (case fromFile tg_file of
        word_tier # phn_tier # _ \<Rightarrow>
          scan_phns retain_stress (word_boundary_dict word_tier) ([], []) phn_tier
      | _ \<Rightarrow> Inl IndexError)"

definition file_name_of :: "string \<Rightarrow> string" where
  "file_name_of tg_file = split_dot_first (basename tg_file)"

text \<open>
  One iteration of the loop over the files: the entry of the file's name is set anew in
  both dictionaries, and popped from both when the tokens are a single \<open><space>\<close>.
\<close>

definition cal_file ::
  "(string \<Rightarrow> text_grid) \<Rightarrow> bool \<Rightarrow> idx2text \<times> idx2duration \<Rightarrow> string
    \<Rightarrow> py_error + idx2text \<times> idx2duration" where
  "cal_file fromFile retain_stress dicts tg_file =
     (case dicts of (idx2text, idx2duration) \<Rightarrow>
        let file_name = file_name_of tg_file
        in case tg_utterance fromFile retain_stress tg_file of
             Inl e \<Rightarrow> Inl e
           | Inr (text, duration) \<Rightarrow>
               if length text = 1 \<and> text ! 0 = ''<space>'' then
                 Inr (idx2text(file_name := None), idx2duration(file_name := None))
               else Inr (idx2text(file_name \<mapsto> text), idx2duration(file_name \<mapsto> duration)))"

fun cal_files ::
  "(string \<Rightarrow> text_grid) \<Rightarrow> bool \<Rightarrow> idx2text \<times> idx2duration \<Rightarrow> string list
    \<Rightarrow> py_error + idx2text \<times> idx2duration" where
  "cal_files fromFile retain_stress dicts [] = Inr dicts"
| "cal_files fromFile retain_stress dicts (tg_file # rest) =
     (case cal_file fromFile retain_stress dicts tg_file of
        Inl e \<Rightarrow> Inl e
      | Inr dicts' \<Rightarrow> cal_files fromFile retain_stress dicts' rest)"

definition cal_duration_by_tg ::
  "(string \<Rightarrow> text_grid) \<Rightarrow> string list \<Rightarrow> bool \<Rightarrow> py_error + idx2text \<times> idx2duration" where
  "cal_duration_by_tg fromFile tg_file_list retain_stress =
     cal_files fromFile retain_stress (Map.empty, Map.empty) tg_file_list"

section \<open>\<open>main\<close>: the files split over the worker processes\<close>

text \<open>
  \<open>xs[i::n]\<close> for \<open>n \<ge> 1\<close>: the elements at the indices \<open>i\<close>, \<open>i + n\<close>, \<open>i + 2n\<close>, ... below
  the length.
\<close>

definition slice_from :: "nat \<Rightarrow> nat \<Rightarrow> 'a list \<Rightarrow> 'a list" where
  "slice_from i n xs =
     map (nth xs) (filter (\<lambda>j. i \<le> j \<and> (j - i) mod n = 0) [0..<length xs])"

definition func_args :: "nat \<Rightarrow> string list \<Rightarrow> string list list" where
  "func_args ncpu tg_file_list = map (\<lambda>i. slice_from i ncpu tg_file_list) [0..<ncpu]"

text \<open>\<open>executor.map\<close>: the results in the order of the arguments, or the exception of a worker.\<close>

fun pool_map :: "('a \<Rightarrow> py_error + 'b) \<Rightarrow> 'a list \<Rightarrow> py_error + 'b list" where
  "pool_map f [] = Inr []"
| "pool_map f (x # xs) =
     (case f x of
        Inl e \<Rightarrow> Inl e
      | Inr y \<Rightarrow> (case pool_map f xs of Inl e \<Rightarrow> Inl e | Inr ys \<Rightarrow> Inr (y # ys)))"

text \<open>The two \<open>dict.update\<close> calls for every worker's result, in the order of the workers.\<close>

definition gather :: "(idx2text \<times> idx2duration) list \<Rightarrow> idx2text \<times> idx2duration" where
  "gather text_duration_results =
     fold (\<lambda>r acc. (fst acc ++ fst r, snd acc ++ snd r)) text_duration_results
       (Map.empty, Map.empty)"

text \<open>
  The two global dictionaries that \<open>main\<close> hands to \<open>dump_subset_metadata\<close>, from the file
  list that the search has found.
\<close>

definition main_dicts ::
  "(string \<Rightarrow> text_grid) \<Rightarrow> bool \<Rightarrow> int \<Rightarrow> string list \<Rightarrow> py_error + idx2text \<times> idx2duration" where
  "main_dicts fromFile retain_stress ncpu tg_file_list =
     (if length tg_file_list = 0 then Inl RuntimeError
      else if ncpu < 1 then Inl ValueError
      else case pool_map (\<lambda>chunk. cal_duration_by_tg fromFile chunk retain_stress)
                  (func_args (nat ncpu) tg_file_list) of
             Inl e \<Rightarrow> Inl e
           | Inr text_duration_results \<Rightarrow> Inr (gather text_duration_results))"

section \<open>\<open>dump_subset_metadata\<close>\<close>

text \<open>
  The comprehension \<open>{index: d[index] for index in subset_indices if index in d.keys()}\<close>,
  as the list of its items. \<open>subset_indices\<close> are the keys of the subset's \<open>idx2wav\<close> file,
  a parameter here; being the keys of a dictionary, they are distinct.
\<close>

definition subset_of :: "string list \<Rightarrow> (string \<rightharpoonup> 'a) \<Rightarrow> (string \<times> 'a) list" where
  "subset_of subset_indices d =
     concat (map (\<lambda>index. case d index of None \<Rightarrow> [] | Some v \<Rightarrow> [(index, v)]) subset_indices)"

text \<open>
  \<open>Counter(xs).items()\<close>: every distinct element with its number of occurrences, in the
  order of the first occurrences.
\<close>

fun counter_add :: "('a \<times> nat) list \<Rightarrow> 'a \<Rightarrow> ('a \<times> nat) list" where
  "counter_add [] x = [(x, 1)]"
| "counter_add ((k, c) # kcs) x =
     (if k = x then (k, Suc c) # kcs else (k, c) # counter_add kcs x)"

definition counter_items :: "'a list \<Rightarrow> ('a \<times> nat) list" where
  "counter_items xs = foldl counter_add [] xs"

text \<open>
  The ranked phonemes: \<open>sorted\<close> with \<open>reverse=True\<close> is a stable sort into descending
  order of the key, and \<open>remove\<close> deletes the first occurrence.
\<close>

definition ranked_phns :: "(string \<times> string list) list \<Rightarrow> string list" where
  "ranked_phns subset_idx2text =
     (let subset_phns = concat (map snd subset_idx2text);
          phn2freq = sort_key (\<lambda>x. - int (snd x)) (counter_items subset_phns);
          subset_phns = map fst phn2freq
      in if ''<unk>'' \<in> set subset_phns then remove1 ''<unk>'' subset_phns else subset_phns)"

definition subset_phn_vocab :: "(string \<times> string list) list \<Rightarrow> string list" where
  "subset_phn_vocab subset_idx2text =
     [''<blank>''] @ ranked_phns subset_idx2text @ [''<unk>'', ''<sos/eos>'']"

text \<open>The rows of the four files that are written.\<close>

record subset_metadata =
  idx2text_rows :: "(string \<times> string list) list"
  idx2text_len_rows :: "(string \<times> nat) list"
  vocab_rows :: "string list"
  idx2duration_rows :: "(string \<times> float list) list"

definition dump_subset_metadata ::
  "string list \<Rightarrow> idx2text \<Rightarrow> idx2duration \<Rightarrow> subset_metadata" where
  "dump_subset_metadata subset_indices idx2text idx2duration =
     (let subset_idx2text = subset_of subset_indices idx2text;
          subset_idx2duration = subset_of subset_indices idx2duration
      in \<lparr>idx2text_rows = subset_idx2text,
          idx2text_len_rows = map (\<lambda>(idx, text). (idx, length text)) subset_idx2text,
          vocab_rows = subset_phn_vocab subset_idx2text,
          idx2duration_rows = subset_idx2duration\<rparr>)"

text \<open>
  The order that the vocabulary is claimed to have: more occurrences first, and among
  equally frequent tokens the one that occurs first.
\<close>

definition first_pos :: "'a list \<Rightarrow> 'a \<Rightarrow> nat" where
  "first_pos xs x = length (takeWhile (\<lambda>y. y \<noteq> x) xs)"

definition ranks_before :: "'a list \<Rightarrow> 'a \<Rightarrow> 'a \<Rightarrow> bool" where
  "ranks_before xs a b =
     (count_list xs b < count_list xs a
      \<or> (count_list xs a = count_list xs b \<and> first_pos xs a < first_pos xs b))"

section \<open>\<open>Tokenizer.__init__\<close>\<close>

text \<open>
  The file system is a parameter: \<open>parse_path_args\<close> resolves a path, \<open>exists\<close> is
  \<open>os.path.exists\<close>, and \<open>load_idx2data_file\<close> gives the items of the dictionary from line
  index to token that it reads from a path. The constructor's effects are the loads and
  the save, in their order.
\<close>

datatype event = Load string | Save string "string list"

record tokenizer =
  token_vocab :: string
  idx2token :: "(int \<times> string) list"
  token2idx :: "(string \<times> int) list"
  vocab_size :: nat
  sos_eos_idx :: int
  ignore_idx :: int
  unk_idx :: int

text \<open>\<open>os.path.join(a, 'token_vocab')\<close>.\<close>

definition join_token_vocab :: "string \<Rightarrow> string" where
  "join_token_vocab a =
     (if a = [] \<or> last a = CHR ''/'' then a @ ''token_vocab'' else a @ ''/'' @ ''token_vocab'')"

text \<open>The path of the vocabulary that is tried first.\<close>

definition initial_token_vocab ::
  "(string \<Rightarrow> string) \<Rightarrow> (string \<Rightarrow> bool) \<Rightarrow> string \<Rightarrow> string option \<Rightarrow> string" where
  "initial_token_vocab parse_path_args exists tv copy_path =
     (case copy_path of
        Some cp \<Rightarrow>
          if exists (join_token_vocab (parse_path_args cp))
          then join_token_vocab (parse_path_args cp)
          else parse_path_args tv
      | None \<Rightarrow> parse_path_args tv)"

text \<open>
  \<open>dict(map(reversed, items))\<close>: a token that occurs again keeps its place and takes the
  later index.
\<close>

definition reversed_dict :: "(int \<times> string) list \<Rightarrow> (string \<times> int) list" where
  "reversed_dict items = fold (\<lambda>(idx, token) d. AList.update token idx d) items []"

definition getitem :: "(string \<times> int) list \<Rightarrow> string \<Rightarrow> py_error + int" where
  "getitem d k = (case map_of d k of None \<Rightarrow> Inl KeyError | Some v \<Rightarrow> Inr v)"

text \<open>
  The five assignments that stand in the \<open>try\<close> block and again in the handler: they raise
  \<open>KeyError\<close> at the first reserved symbol that the vocabulary lacks.
\<close>

definition register_tokens :: "string \<Rightarrow> (int \<times> string) list \<Rightarrow> py_error + tokenizer" where
  "register_tokens path items =
     (let t2i = reversed_dict items
      in case getitem t2i ''<sos/eos>'' of
           Inl e \<Rightarrow> Inl e
         | Inr s \<Rightarrow>
             (case getitem t2i ''<blank>'' of
                Inl e \<Rightarrow> Inl e
              | Inr b \<Rightarrow>
                  (case getitem t2i ''<unk>'' of
                     Inl e \<Rightarrow> Inl e
                   | Inr u \<Rightarrow>
                       Inr \<lparr>token_vocab = path, idx2token = items, token2idx = t2i,
                            vocab_size = length t2i, sos_eos_idx = s, ignore_idx = b,
                            unk_idx = u\<rparr>)))"

text \<open>
  The constructor up to the call of the hook \<open>tokenizer_init_fn\<close>, which does nothing in
  this class: the events, and the object or the exception.
\<close>

definition Tokenizer_init ::
  "(string \<Rightarrow> string) \<Rightarrow> (string \<Rightarrow> bool) \<Rightarrow> (string \<Rightarrow> (int \<times> string) list) \<Rightarrow> string
    \<Rightarrow> string option \<Rightarrow> event list \<times> (py_error + tokenizer)" where
  "Tokenizer_init parse_path_args exists load_idx2data_file tv copy_path =
     (let path0 = initial_token_vocab parse_path_args exists tv copy_path;
          (loads, res) =
            (case register_tokens path0 (load_idx2data_file path0) of
               Inr t \<Rightarrow> ([Load path0], Inr t)
             | Inl KeyError \<Rightarrow>
                 (let path1 = parse_path_args tv
                  in ([Load path0, Load path1],
                      register_tokens path1 (load_idx2data_file path1)))
             | Inl e \<Rightarrow> ([Load path0], Inl e))
      in case res of
           Inl e \<Rightarrow> (loads, Inl e)
         | Inr t \<Rightarrow>
             (case copy_path of
                None \<Rightarrow> (loads, Inr t)
              | Some cp \<Rightarrow>
                  (loads @ [Save (join_token_vocab (parse_path_args cp)) (map fst (token2idx t))],
                   Inr t)))"

text \<open>The reserved symbols, and the paths that a run of the constructor has loaded.\<close>

definition reserved :: "string list" where
  "reserved = [''<sos/eos>'', ''<blank>'', ''<unk>'']"

definition has_reserved :: "(int \<times> string) list \<Rightarrow> bool" where
  "has_reserved items = (list_all (\<lambda>s. s \<in> snd ` set items) reserved)"

fun loaded :: "event list \<Rightarrow> string list" where
  "loaded [] = []"
| "loaded (Load p # es) = p # loaded es"
| "loaded (Save p ts # es) = loaded es"

section \<open>Auxiliary notions and example data\<close>

text \<open>
  Two dictionaries are aligned when they have the same keys and hold lists of the same
  length under every key.
\<close>

definition aligned :: "idx2text \<times> idx2duration \<Rightarrow> bool" where
  "aligned st =
     (dom (fst st) = dom (snd st)
      \<and> (\<forall>k toks durs. fst st k = Some toks \<and> snd st k = Some durs
             \<longrightarrow> length toks = length durs))"

text \<open>
  An utterance of one word followed by a pause, and an utterance that is a pause only.
  Every path under the directory \<open>b\<close> holds the second one.
\<close>

definition tg_speech :: text_grid where
  "tg_speech =
     [[\<lparr>minTime = 0, maxTime = 1, mark = ''a''\<rparr>, \<lparr>minTime = 1, maxTime = 2, mark = ''''\<rparr>],
      [\<lparr>minTime = 0, maxTime = 1, mark = ''AH0''\<rparr>, \<lparr>minTime = 1, maxTime = 2, mark = ''sil''\<rparr>]]"

definition tg_silence :: text_grid where
  "tg_silence =
     [[\<lparr>minTime = 0, maxTime = 1, mark = ''''\<rparr>],
      [\<lparr>minTime = 0, maxTime = 1, mark = ''sil''\<rparr>]]"

text \<open>A pause that ends where a word ends; the paths under the directory \<open>c\<close> hold it.\<close>

definition tg_pause_word :: text_grid where
  "tg_pause_word =
     [[\<lparr>minTime = 0, maxTime = 1, mark = ''a''\<rparr>],
      [\<lparr>minTime = 0, maxTime = 1, mark = ''sil''\<rparr>]]"

definition example_fromFile :: "string \<Rightarrow> text_grid" where
  "example_fromFile tg_file =
     (if take 2 tg_file = ''b/'' then tg_silence
      else if take 2 tg_file = ''c/'' then tg_pause_word
      else tg_speech)"

text \<open>
  Three pauses of 0.10, 0.20 and 0.05 seconds in a row, from 0 to 0.35 seconds, and then
  a word of one phoneme. The times are the floats of these decimals.
\<close>

definition tg_pauses :: text_grid where
  "tg_pauses =
     [[\<lparr>minTime = 0, maxTime = fl (35 / 100), mark = ''''\<rparr>,
       \<lparr>minTime = fl (35 / 100), maxTime = fl (50 / 100), mark = ''a''\<rparr>],
      [\<lparr>minTime = 0, maxTime = fl (10 / 100), mark = ''''\<rparr>,
       \<lparr>minTime = fl (10 / 100), maxTime = fl (30 / 100), mark = ''sp''\<rparr>,
       \<lparr>minTime = fl (30 / 100), maxTime = fl (35 / 100), mark = ''sil''\<rparr>,
       \<lparr>minTime = fl (35 / 100), maxTime = fl (50 / 100), mark = ''AH0''\<rparr>]]"

text \<open>
  The token text as the specification words it: the mark without its last character when
  stress is not retained and that character is a digit, the mark otherwise; and \<open><unk>\<close>
  in place of \<open>spn\<close>.
\<close>

definition spec_strip_stress :: "bool \<Rightarrow> string \<Rightarrow> string" where
  "spec_strip_stress retain_stress m =
     (if \<not> retain_stress \<and> m \<noteq> [] \<and> isdigit (last m) then butlast m else m)"

definition spec_token_text :: "bool \<Rightarrow> string \<Rightarrow> string" where
  "spec_token_text retain_stress m =
     (if spec_strip_stress retain_stress m = ''spn'' then ''<unk>''
      else spec_strip_stress retain_stress m)"

text \<open>
  A file system for the constructor: a vocabulary with the reserved symbols at
  \<open>data/vocab\<close>, a backup without them at \<open>exp/token_vocab\<close>, and nothing elsewhere.
\<close>

definition example_load :: "string \<Rightarrow> (int \<times> string) list" where
  "example_load path =
     (if path = ''data/vocab''
      then [(0, ''<blank>''), (1, ''a''), (2, ''<unk>''), (3, ''<sos/eos>'')]
      else if path = ''exp/token_vocab'' then [(0, ''a''), (1, ''b'')]
      else [])"

definition example_exists :: "string \<Rightarrow> bool" where
  "example_exists path = (path = ''data/vocab'' \<or> path = ''exp/token_vocab'')"

text \<open>
  The entry that a file leaves under its utterance id: none when its tokens are a single
  \<open><space>\<close>, its tokens and durations otherwise.
\<close>

definition kept ::
  "(string \<Rightarrow> text_grid) \<Rightarrow> bool \<Rightarrow> string \<Rightarrow> (string list \<times> float list) option" where
  "kept fromFile retain_stress tg_file =
     (case tg_utterance fromFile retain_stress tg_file of
        Inl e \<Rightarrow> None
      | Inr (toks, durs) \<Rightarrow> if toks = [''<space>''] then None else Some (toks, durs))"

section \<open>The scan keeps the two lists aligned\<close>

lemma handle_phn_length:
  assumes "length (fst st) = length (snd st)"
  shows "\<exists>text duration. handle_phn retain_stress phn d st = Inr (text, duration)
           \<and> length text = length duration"
proof -
  obtain toks durs where st: "st = (toks, durs)"
    by (cases st)
  with assms have len: "length toks = length durs"
    by simp
  show ?thesis
  proof (cases "mark phn \<notin> set silence_marks \<or> length toks = 0 \<or> last toks \<noteq> ''<space>''")
    case True
    with len show ?thesis
      by (auto simp: handle_phn_def st)
  next
    case False
    with len have "durs \<noteq> []"
      by auto
    with False len show ?thesis
      by (auto simp: handle_phn_def st)
  qed
qed

lemma scan_phn_length:
  assumes "length (fst st) = length (snd st)"
  shows "\<exists>text duration. scan_phn retain_stress wbd st phn = Inr (text, duration)
           \<and> length text = length duration"
proof -
  let ?d = "py_round2 (fsub (maxTime phn) (minTime phn))"
  from handle_phn_length [OF assms, of retain_stress phn ?d]
  obtain toks durs where
    h: "handle_phn retain_stress phn ?d st = Inr (toks, durs)"
    and len: "length toks = length durs"
    by blast
  show ?thesis
    using h len by (simp add: scan_phn_def boundary_insert_def)
qed

lemma scan_phns_length:
  assumes "length (fst st) = length (snd st)"
  shows "\<exists>text duration. scan_phns retain_stress wbd st phns = Inr (text, duration)
           \<and> length text = length duration"
  using assms
proof (induction phns arbitrary: st)
  case Nil
  then show ?case
    by (cases st) simp
next
  case (Cons phn phns)
  from scan_phn_length [OF Cons.prems, of retain_stress wbd phn]
  obtain toks durs where
    s: "scan_phn retain_stress wbd st phn = Inr (toks, durs)"
    and len: "length toks = length durs"
    by blast
  from Cons.IH [of "(toks, durs)"] len s show ?case
    by simp
qed

section \<open>The loop over the files\<close>

lemma tg_utterance_Inr:
  assumes "tg_utterance fromFile retain_stress tg_file = Inr (toks, durs)"
  shows "\<exists>ws ps rest. fromFile tg_file = ws # ps # rest
           \<and> scan_phns retain_stress (word_boundary_dict ws) ([], []) ps = Inr (toks, durs)"
  using assms by (auto simp: tg_utterance_def split: list.splits)

lemma tg_utterance_length:
  assumes "tg_utterance fromFile retain_stress tg_file = Inr (toks, durs)"
  shows "length toks = length durs"
proof -
  from tg_utterance_Inr [OF assms] obtain ws ps where
    s: "scan_phns retain_stress (word_boundary_dict ws) ([], []) ps = Inr (toks, durs)"
    by blast
  from scan_phns_length [of "([], [])" retain_stress "word_boundary_dict ws" ps] s
  show ?thesis
    by simp
qed

lemma tg_utterance_Inl:
  assumes "tg_utterance fromFile retain_stress tg_file = Inl e"
  shows "e = IndexError"
proof (cases "fromFile tg_file")
  case Nil
  with assms show ?thesis
    by (simp add: tg_utterance_def)
next
  case (Cons ws tl)
  show ?thesis
  proof (cases tl)
    case Nil
    with Cons assms show ?thesis
      by (simp add: tg_utterance_def)
  next
    case (Cons ps rest)
    from scan_phns_length [of "([], [])" retain_stress "word_boundary_dict ws" ps]
    obtain toks durs where
      "scan_phns retain_stress (word_boundary_dict ws) ([], []) ps = Inr (toks, durs)"
      by auto
    with Cons \<open>fromFile tg_file = ws # tl\<close> assms show ?thesis
      by (simp add: tg_utterance_def)
  qed
qed

text \<open>What one file does to the two dictionaries.\<close>

lemma cal_file_Inr:
  assumes "cal_file fromFile retain_stress (t, d) tg_file = Inr (t', d')"
  shows "\<exists>toks durs. tg_utterance fromFile retain_stress tg_file = Inr (toks, durs)
           \<and> (if toks = [''<space>'']
               then t' = t(file_name_of tg_file := None) \<and> d' = d(file_name_of tg_file := None)
               else t' = t(file_name_of tg_file \<mapsto> toks) \<and> d' = d(file_name_of tg_file \<mapsto> durs))"
proof (cases "tg_utterance fromFile retain_stress tg_file")
  case (Inl e)
  with assms show ?thesis
    by (simp add: cal_file_def)
next
  case (Inr r)
  obtain toks durs where r: "r = (toks, durs)"
    by (cases r)
  have single: "(length toks = Suc 0 \<and> toks ! 0 = ''<space>'') = (toks = [''<space>''])"
    by (cases toks) auto
  from assms Inr r show ?thesis
    by (simp add: cal_file_def Let_def single split: if_splits)
qed

lemma cal_file_eq:
  assumes "tg_utterance fromFile retain_stress tg_file = Inr (toks, durs)"
  shows "cal_file fromFile retain_stress (t, d) tg_file =
           (if toks = [''<space>'']
            then Inr (t(file_name_of tg_file := None), d(file_name_of tg_file := None))
            else Inr (t(file_name_of tg_file \<mapsto> toks), d(file_name_of tg_file \<mapsto> durs)))"
proof -
  have single: "(length toks = Suc 0 \<and> toks ! 0 = ''<space>'') = (toks = [''<space>''])"
    by (cases toks) auto
  from assms show ?thesis
    by (simp add: cal_file_def Let_def single)
qed

lemma cal_file_kept:
  assumes "cal_file fromFile retain_stress st f = Inr st'"
  shows "fst st' = (fst st)(file_name_of f := map_option fst (kept fromFile retain_stress f))
       \<and> snd st' = (snd st)(file_name_of f := map_option snd (kept fromFile retain_stress f))"
proof -
  obtain t d where st: "st = (t, d)"
    by (cases st)
  show ?thesis
  proof (cases "tg_utterance fromFile retain_stress f")
    case (Inl e)
    with assms show ?thesis
      by (simp add: cal_file_def st)
  next
    case (Inr r)
    obtain toks durs where r: "r = (toks, durs)"
      by (cases r)
    from Inr r have u: "tg_utterance fromFile retain_stress f = Inr (toks, durs)"
      by simp
    from assms cal_file_eq [OF u, of t d] show ?thesis
      by (cases "toks = [''<space>'']") (auto simp: st kept_def u)
  qed
qed

lemma cal_file_Inl:
  assumes "cal_file fromFile retain_stress st f = Inl e"
  shows "e = IndexError"
proof (cases "tg_utterance fromFile retain_stress f")
  case (Inl e1)
  then have "e1 = IndexError"
    by (rule tg_utterance_Inl)
  with Inl assms show ?thesis
    by (simp add: cal_file_def split: prod.splits)
next
  case (Inr r)
  then have u: "tg_utterance fromFile retain_stress f = Inr (fst r, snd r)"
    by simp
  from cal_file_eq [OF u, of "fst st" "snd st"] assms show ?thesis
    by (cases "fst r = [''<space>'']") simp_all
qed

lemma cal_files_append:
  "cal_files fromFile retain_stress st (xs @ ys) =
     (case cal_files fromFile retain_stress st xs of
        Inl e \<Rightarrow> Inl e
      | Inr st' \<Rightarrow> cal_files fromFile retain_stress st' ys)"
  by (induction xs arbitrary: st) (auto split: sum.splits)

lemma cal_file_aligned:
  assumes "cal_file fromFile retain_stress st tg_file = Inr st'" and "aligned st"
  shows "aligned st'"
proof -
  obtain t d t' d' where st: "st = (t, d)" "st' = (t', d')"
    by (cases st, cases st')
  from cal_file_Inr [of fromFile retain_stress t d tg_file t' d'] assms(1) st
  obtain toks durs where
    u: "tg_utterance fromFile retain_stress tg_file = Inr (toks, durs)"
    and upd: "if toks = [''<space>'']
               then t' = t(file_name_of tg_file := None) \<and> d' = d(file_name_of tg_file := None)
               else t' = t(file_name_of tg_file \<mapsto> toks) \<and> d' = d(file_name_of tg_file \<mapsto> durs)"
    by auto
  from tg_utterance_length [OF u] have len: "length toks = length durs" .
  show ?thesis
    using assms(2) upd len unfolding aligned_def st
    by (auto split: if_splits)
qed

lemma cal_files_aligned:
  assumes "cal_files fromFile retain_stress st fs = Inr st'" and "aligned st"
  shows "aligned st'"
  using assms
proof (induction fs arbitrary: st)
  case Nil
  then show ?case by simp
next
  case (Cons f fs)
  then show ?case
    by (auto split: sum.splits dest: cal_file_aligned)
qed

lemma aligned_dom: "aligned st \<Longrightarrow> dom (fst st) = dom (snd st)"
  by (simp add: aligned_def)

lemma cal_files_member:
  assumes "cal_files fromFile retain_stress st fs = Inr st'" and "f \<in> set fs"
  shows "\<exists>toks durs. tg_utterance fromFile retain_stress f = Inr (toks, durs)"
  using assms
proof (induction fs arbitrary: st)
  case Nil
  then show ?case by simp
next
  case (Cons g fs)
  then obtain st1 where g: "cal_file fromFile retain_stress st g = Inr st1"
    and rest: "cal_files fromFile retain_stress st1 fs = Inr st'"
    by (auto split: sum.splits)
  show ?case
  proof (cases "f = g")
    case True
    from g cal_file_Inr [of fromFile retain_stress "fst st" "snd st" g "fst st1" "snd st1"]
    show ?thesis
      unfolding True by auto
  next
    case False
    with Cons.prems(2) have "f \<in> set fs" by simp
    from Cons.IH [OF rest this] show ?thesis .
  qed
qed

lemma cal_files_other_key:
  assumes "cal_files fromFile retain_stress st fs = Inr st'"
    and "k \<notin> file_name_of ` set fs"
  shows "fst st' k = fst st k \<and> snd st' k = snd st k"
  using assms
proof (induction fs arbitrary: st)
  case Nil
  then show ?case by simp
next
  case (Cons f fs)
  then obtain st1 where f: "cal_file fromFile retain_stress st f = Inr st1"
    and rest: "cal_files fromFile retain_stress st1 fs = Inr st'"
    by (auto split: sum.splits)
  from Cons.prems(2) have k: "k \<noteq> file_name_of f" "k \<notin> file_name_of ` set fs"
    by auto
  from f cal_file_Inr [of fromFile retain_stress "fst st" "snd st" f "fst st1" "snd st1"] k(1)
  have "fst st1 k = fst st k \<and> snd st1 k = snd st k"
    by (auto split: if_splits)
  with Cons.IH [OF rest k(2)] show ?case
    by simp
qed

lemma cal_files_ok:
  assumes "\<forall>f \<in> set fs. \<exists>r. tg_utterance fromFile retain_stress f = Inr r"
  shows "\<exists>st'. cal_files fromFile retain_stress st fs = Inr st'"
  using assms
proof (induction fs arbitrary: st)
  case Nil
  then show ?case by simp
next
  case (Cons f fs)
  from Cons.prems obtain r where "tg_utterance fromFile retain_stress f = Inr r"
    by auto
  then have u: "tg_utterance fromFile retain_stress f = Inr (fst r, snd r)"
    by simp
  from cal_file_eq [OF u, of "fst st" "snd st"]
  obtain st1 where st1: "cal_file fromFile retain_stress st f = Inr st1"
    by (cases "fst r = [''<space>'']") simp_all
  from Cons.prems have "\<forall>f \<in> set fs. \<exists>r. tg_utterance fromFile retain_stress f = Inr r"
    by simp
  from Cons.IH [OF this, of st1] st1 show ?case
    by simp
qed

lemma cal_files_Inl:
  assumes "cal_files fromFile retain_stress st fs = Inl e"
  shows "e = IndexError"
  using assms
proof (induction fs arbitrary: st)
  case Nil
  then show ?case by simp
next
  case (Cons f fs)
  show ?case
  proof (cases "cal_file fromFile retain_stress st f")
    case (Inl e1)
    with Cons.prems have "e = e1"
      by simp
    with Inl show ?thesis
      by (simp add: cal_file_Inl)
  next
    case (Inr st1)
    with Cons show ?thesis
      by simp
  qed
qed

lemma cal_files_error:
  assumes "f \<in> set fs" and "tg_utterance fromFile retain_stress f = Inl e"
  shows "cal_files fromFile retain_stress st fs = Inl IndexError"
proof (cases "cal_files fromFile retain_stress st fs")
  case (Inr st')
  from cal_files_member [OF this assms(1)] assms(2) show ?thesis
    by simp
next
  case (Inl e')
  then show ?thesis
    by (simp add: cal_files_Inl [OF Inl])
qed

lemma find_unique:
  assumes "distinct (map h xs)" and "g \<in> set xs"
  shows "find (\<lambda>f. h f = h g) xs = Some g"
  using assms
proof (induction xs)
  case Nil
  then show ?case by simp
next
  case (Cons x xs)
  show ?case
  proof (cases "g = x")
    case True
    then show ?thesis by simp
  next
    case False
    with Cons.prems have g: "g \<in> set xs"
      by simp
    then have "h g \<in> h ` set xs"
      by (rule imageI)
    moreover from Cons.prems(1) have "h x \<notin> h ` set xs"
      by simp
    ultimately have "h x \<noteq> h g"
      by metis
    moreover from Cons.prems(1) have "distinct (map h xs)"
      by simp
    ultimately show ?thesis
      using Cons.IH g by simp
  qed
qed

lemma cal_files_entries:
  assumes "cal_files fromFile retain_stress st fs = Inr st'"
    and "distinct (map file_name_of fs)"
  shows "fst st' k = (case find (\<lambda>f. file_name_of f = k) fs of
                        None \<Rightarrow> fst st k
                      | Some f \<Rightarrow> map_option fst (kept fromFile retain_stress f))
       \<and> snd st' k = (case find (\<lambda>f. file_name_of f = k) fs of
                        None \<Rightarrow> snd st k
                      | Some f \<Rightarrow> map_option snd (kept fromFile retain_stress f))"
  using assms
proof (induction fs arbitrary: st)
  case Nil
  then show ?case by simp
next
  case (Cons f fs)
  from Cons.prems(1) obtain st1 where f: "cal_file fromFile retain_stress st f = Inr st1"
    and rest: "cal_files fromFile retain_stress st1 fs = Inr st'"
    by (cases "cal_file fromFile retain_stress st f") simp_all
  from Cons.prems(2) have d: "distinct (map file_name_of fs)"
    and new: "file_name_of f \<notin> file_name_of ` set fs"
    by simp_all
  note IH = Cons.IH [OF rest d]
  note upd = cal_file_kept [OF f]
  show ?case
  proof (cases "file_name_of f = k")
    case True
    have "find (\<lambda>f. file_name_of f = k) fs = None"
      unfolding find_None_iff
    proof
      assume "\<exists>x. x \<in> set fs \<and> file_name_of x = k"
      then obtain x where "x \<in> set fs" "file_name_of x = k"
        by blast
      with True have "file_name_of f \<in> file_name_of ` set fs"
        by (simp add: image_iff) metis
      with new show False
        by simp
    qed
    moreover from upd True
    have "fst st1 k = map_option fst (kept fromFile retain_stress f)"
      "snd st1 k = map_option snd (kept fromFile retain_stress f)"
      by simp_all
    ultimately show ?thesis
      using IH True by simp
  next
    case False
    with upd have "fst st1 k = fst st k" "snd st1 k = snd st k"
      by simp_all
    with IH False show ?thesis
      by (simp split: option.splits)
  qed
qed

section \<open>Evaluation of the example data\<close>

lemma float_examples:
  "py_round2 1 = 1" "py_round2 2 = 2" "fsub 1 0 = 1" "fsub 2 1 = 1" "fadd 0 1 = 1"
  by code_simp+

lemma file_name_examples:
  "file_name_of ''a/utt1.TextGrid'' = ''utt1''"
  "file_name_of ''a/x.TextGrid'' = ''x''"
  "file_name_of ''b/x.TextGrid'' = ''x''"
  "file_name_of ''b/utt2.TextGrid'' = ''utt2''"
  by (simp_all add: file_name_of_def basename_def split_dot_first_def)

lemma file_name_examples2:
  "file_name_of ''c/utt3.TextGrid'' = ''utt3''"
  by (simp_all add: file_name_of_def basename_def split_dot_first_def)

lemma tg_speech_utterance:
  "tg_utterance example_fromFile True ''a/utt1.TextGrid'' = Inr ([''AH0'', ''<space>''], [1, 1])"
  "tg_utterance example_fromFile True ''a/x.TextGrid'' = Inr ([''AH0'', ''<space>''], [1, 1])"
  by (simp_all add: tg_utterance_def example_fromFile_def tg_speech_def word_boundary_dict_def
      scan_phn_def handle_phn_def boundary_insert_def phn_token_def silence_marks_def
      float_examples)

lemma tg_silence_utterance:
  "tg_utterance example_fromFile True ''b/utt2.TextGrid'' = Inr ([''<space>''], [1])"
  "tg_utterance example_fromFile True ''b/x.TextGrid'' = Inr ([''<space>''], [1])"
  by (simp_all add: tg_utterance_def example_fromFile_def tg_silence_def word_boundary_dict_def
      scan_phn_def handle_phn_def boundary_insert_def phn_token_def silence_marks_def
      float_examples)

lemma tg_pause_word_utterance:
  "tg_utterance example_fromFile True ''c/utt3.TextGrid'' = Inr ([''<space>'', ''<space>''], [1, 0])"
  by (simp_all add: tg_utterance_def example_fromFile_def tg_pause_word_def word_boundary_dict_def
      scan_phn_def handle_phn_def boundary_insert_def phn_token_def silence_marks_def
      float_examples)

lemma cal_example_speech:
  "cal_duration_by_tg example_fromFile [''a/utt1.TextGrid''] True =
     Inr ([''utt1'' \<mapsto> [''AH0'', ''<space>'']], [''utt1'' \<mapsto> [1, 1]])"
  by (simp add: cal_duration_by_tg_def cal_file_def Let_def tg_speech_utterance file_name_examples)

lemma cal_example_three:
  "cal_duration_by_tg example_fromFile
     [''a/utt1.TextGrid'', ''b/utt2.TextGrid'', ''c/utt3.TextGrid''] True =
     Inr ((Map.empty(''utt1'' \<mapsto> [''AH0'', ''<space>'']))
            (''utt2'' := None, ''utt3'' \<mapsto> [''<space>'', ''<space>'']),
          (Map.empty(''utt1'' \<mapsto> [1, 1]))(''utt2'' := None, ''utt3'' \<mapsto> [1, 0]))"
  by (simp add: cal_duration_by_tg_def cal_file_eq tg_speech_utterance tg_silence_utterance
      tg_pause_word_utterance file_name_examples file_name_examples2)

lemma cal_example_same_id:
  "cal_duration_by_tg example_fromFile [''a/x.TextGrid''] True =
     Inr ([''x'' \<mapsto> [''AH0'', ''<space>'']], [''x'' \<mapsto> [1, 1]])"
  "cal_duration_by_tg example_fromFile [''b/x.TextGrid''] True =
     Inr (Map.empty(''x'' := None), Map.empty(''x'' := None))"
  "cal_duration_by_tg example_fromFile [''a/x.TextGrid'', ''b/x.TextGrid''] True =
     Inr ([''x'' \<mapsto> [''AH0'', ''<space>'']](''x'' := None), [''x'' \<mapsto> [1, 1]](''x'' := None))"
  by (simp_all add: cal_duration_by_tg_def cal_file_eq tg_speech_utterance tg_silence_utterance
      file_name_examples)

lemma cal_example_chunks:
  "cal_duration_by_tg example_fromFile [''a/utt1.TextGrid'', ''c/utt3.TextGrid''] True =
     Inr ([''utt1'' \<mapsto> [''AH0'', ''<space>''], ''utt3'' \<mapsto> [''<space>'', ''<space>'']],
          [''utt1'' \<mapsto> [1, 1], ''utt3'' \<mapsto> [1, 0]])"
  "cal_duration_by_tg example_fromFile [''b/utt2.TextGrid''] True =
     Inr (Map.empty(''utt2'' := None), Map.empty(''utt2'' := None))"
  by (simp_all add: cal_duration_by_tg_def cal_file_eq tg_speech_utterance tg_silence_utterance
      tg_pause_word_utterance file_name_examples file_name_examples2)

lemma func_args_examples:
  "func_args 2 [''a/x.TextGrid'', ''b/x.TextGrid''] = [[''a/x.TextGrid''], [''b/x.TextGrid'']]"
  "func_args 2 [''a/utt1.TextGrid'', ''b/utt2.TextGrid'', ''c/utt3.TextGrid'']
     = [[''a/utt1.TextGrid'', ''c/utt3.TextGrid''], [''b/utt2.TextGrid'']]"
  by code_simp+

lemma fl_examples:
  "fl (1 / 10) = 3602879701896397 / 36028797018963968"
  "fl (3 / 10) = 5404319552844595 / 18014398509481984"
  "fl (7 / 20) = 3152519739159347 / 9007199254740992"
  "fl (1 / 2) = 1 / 2"
  by code_simp+

lemma decimal_examples:
  "fl (1 / 5) = 3602879701896397 / 18014398509481984"
  "fl (1 / 20) = 3602879701896397 / 72057594037927936"
  "fl (3 / 20) = 5404319552844595 / 36028797018963968"
  by code_simp+

lemma duration_examples:
  "py_round2 (fsub (3602879701896397 / 36028797018963968) 0) = 3602879701896397 / 36028797018963968"
  "py_round2 (fsub (5404319552844595 / 18014398509481984) (3602879701896397 / 36028797018963968))
     = 3602879701896397 / 18014398509481984"
  "py_round2 (fsub (3152519739159347 / 9007199254740992) (5404319552844595 / 18014398509481984))
     = 3602879701896397 / 72057594037927936"
  "py_round2 (fsub (1 / 2) (3152519739159347 / 9007199254740992))
     = 5404319552844595 / 36028797018963968"
  by code_simp+

lemma boundary_examples:
  "py_round2 (3602879701896397 / 36028797018963968) = 3602879701896397 / 36028797018963968"
  "py_round2 (5404319552844595 / 18014398509481984) = 5404319552844595 / 18014398509481984"
  "py_round2 (3152519739159347 / 9007199254740992) = 3152519739159347 / 9007199254740992"
  "py_round2 (1 / 2) = 1 / 2"
  by code_simp+

lemma sum_examples:
  "fadd (3602879701896397 / 36028797018963968) (3602879701896397 / 18014398509481984)
     = 1351079888211149 / 4503599627370496"
  "fadd (1351079888211149 / 4503599627370496) (3602879701896397 / 72057594037927936)
     = 6305039478318695 / 18014398509481984"
  by code_simp+

lemma tg_pauses_utterance:
  "tg_utterance (\<lambda>tg_file. tg_pauses) True ''utt.TextGrid'' =
     Inr ([''<space>'', ''AH0'', ''<space>''],
          [6305039478318695 / 18014398509481984, 5404319552844595 / 36028797018963968, 0])"
  by (simp add: tg_utterance_def tg_pauses_def word_boundary_dict_def
      scan_phn_def handle_phn_def boundary_insert_def phn_token_def silence_marks_def
      Let_def fl_examples duration_examples boundary_examples sum_examples)

section \<open>Merging pauses\<close>

text \<open>
  What the scan does with a pause: a new \<open><space>\<close> with the pause's duration when the
  tokens are empty or do not end in \<open><space>\<close>, and otherwise no new token, the duration
  added to the last one by a float addition.
\<close>

lemma handle_phn_silence:
  assumes "mark phn \<in> set silence_marks" and "length toks = length durs"
  shows "handle_phn retain_stress phn d (toks, durs) =
           (if toks = [] \<or> last toks \<noteq> ''<space>''
            then Inr (toks @ [''<space>''], durs @ [d])
            else Inr (toks, butlast durs @ [fadd (last durs) d]))"
  using assms by (auto simp: handle_phn_def)

text \<open>Two pauses with a phoneme between them give two \<open><space>\<close> tokens.\<close>

lemma handle_phn_no_merge_across:
  assumes "mark p1 \<in> set silence_marks" and "mark p2 \<notin> set silence_marks"
    and "mark p3 \<in> set silence_marks" and "length toks = length durs"
    and "handle_phn retain_stress p1 d1 (toks, durs) = Inr st1"
    and "handle_phn retain_stress p2 d2 st1 = Inr st2"
    and "phn_token retain_stress (mark p2) \<noteq> ''<space>''"
  shows "handle_phn retain_stress p3 d3 st2 =
           Inr (fst st1 @ [phn_token retain_stress (mark p2), ''<space>''], snd st1 @ [d2, d3])"
proof -
  obtain t1 u1 where st1: "st1 = (t1, u1)"
    by (cases st1)
  from assms(2,6) have st2: "st2 = (t1 @ [phn_token retain_stress (mark p2)], u1 @ [d2])"
    by (simp add: handle_phn_def st1)
  from assms(3,7) show ?thesis
    by (simp add: handle_phn_def st1 st2)
qed

text \<open>
  C1. The three pauses of \<open>tg_pauses\<close> have the rounded durations 0.1, 0.2 and 0.05 and
  become one \<open><space>\<close> token. Its duration is the float sum of the three, which is
  6305039478318695 / 2^54, in decimals 0.35000000000000003, and not the float 0.35, which
  is 6305039478318694 / 2^54: the sum is not rounded again.
\<close>

theorem silence_merge_sum:
  "cal_duration_by_tg (\<lambda>tg_file. tg_pauses) [''utt.TextGrid''] True =
     Inr ([''utt'' \<mapsto> [''<space>'', ''AH0'', ''<space>'']],
          [''utt'' \<mapsto> [fadd (fadd (fl (10 / 100)) (fl (20 / 100))) (fl (5 / 100)),
                       fl (15 / 100), 0]])
   \<and> fadd (fadd (fl (10 / 100)) (fl (20 / 100))) (fl (5 / 100)) = 6305039478318695 / 2 ^ 54
   \<and> fl (35 / 100) = 6305039478318694 / 2 ^ 54"
proof -
  have name: "file_name_of ''utt.TextGrid'' = ''utt''"
    by (simp add: file_name_of_def basename_def split_dot_first_def)
  have "cal_duration_by_tg (\<lambda>tg_file. tg_pauses) [''utt.TextGrid''] True =
     Inr ([''utt'' \<mapsto> [''<space>'', ''AH0'', ''<space>'']],
          [''utt'' \<mapsto> [6305039478318695 / 18014398509481984,
                       5404319552844595 / 36028797018963968, 0]])"
    by (simp add: cal_duration_by_tg_def cal_file_eq [OF tg_pauses_utterance] name)
  then show ?thesis
    by (simp add: fl_examples decimal_examples sum_examples)
qed

section \<open>The length invariant\<close>

text \<open>
  C2. Whenever \<open>cal_duration_by_tg\<close> returns, every utterance of its output has a token list
  and a duration list of the same length; and for every file of the list, the scan of each
  prefix of the phoneme tier ends without an exception in a state whose two lists have the
  same length, which are the states between the iterations of the scan.
\<close>

theorem length_invariant:
  assumes "cal_duration_by_tg fromFile tg_file_list retain_stress = Inr (idx2text, idx2duration)"
  shows "(\<forall>k toks. idx2text k = Some toks \<longrightarrow>
            (\<exists>durs. idx2duration k = Some durs \<and> length toks = length durs))
       \<and> (\<forall>tg_file \<in> set tg_file_list. \<forall>n. \<exists>ws ps rest toks durs.
            fromFile tg_file = ws # ps # rest
            \<and> scan_phns retain_stress (word_boundary_dict ws) ([], []) (take n ps) = Inr (toks, durs)
            \<and> length toks = length durs)"
proof (intro conjI allI impI ballI)
  have "aligned (Map.empty, Map.empty)"
    by (simp add: aligned_def)
  with assms have al: "aligned (idx2text, idx2duration)"
    unfolding cal_duration_by_tg_def by (rule cal_files_aligned)
  fix k toks
  assume "idx2text k = Some toks"
  then have "k \<in> dom idx2text"
    by blast
  with al have "k \<in> dom idx2duration"
    by (simp add: aligned_def)
  then obtain durs where "idx2duration k = Some durs"
    by blast
  with al \<open>idx2text k = Some toks\<close>
  show "\<exists>durs. idx2duration k = Some durs \<and> length toks = length durs"
    by (auto simp: aligned_def)
next
  fix tg_file n
  assume "tg_file \<in> set tg_file_list"
  with assms obtain toks durs where
    "tg_utterance fromFile retain_stress tg_file = Inr (toks, durs)"
    unfolding cal_duration_by_tg_def by (blast dest: cal_files_member)
  from tg_utterance_Inr [OF this] obtain ws ps rest where
    tiers: "fromFile tg_file = ws # ps # rest"
    by blast
  from scan_phns_length [of "([], [])" retain_stress "word_boundary_dict ws" "take n ps"]
  obtain toks' durs' where
    "scan_phns retain_stress (word_boundary_dict ws) ([], []) (take n ps) = Inr (toks', durs')"
    "length toks' = length durs'"
    by auto
  with tiers show "\<exists>ws ps rest toks durs.
            fromFile tg_file = ws # ps # rest
            \<and> scan_phns retain_stress (word_boundary_dict ws) ([], []) (take n ps) = Inr (toks, durs)
            \<and> length toks = length durs"
    by blast
qed

theorem length_invariant_witness:
  "cal_duration_by_tg example_fromFile [''a/utt1.TextGrid''] True =
     Inr ([''utt1'' \<mapsto> [''AH0'', ''<space>'']], [''utt1'' \<mapsto> [1, 1]])
   \<and> (\<exists>durs. [''utt1'' \<mapsto> [1, 1 :: float]] ''utt1'' = Some durs
          \<and> length [''AH0'', ''<space>''] = length durs)
   \<and> (\<exists>ws ps rest toks durs. example_fromFile ''a/utt1.TextGrid'' = ws # ps # rest
          \<and> scan_phns True (word_boundary_dict ws) ([], []) (take 1 ps) = Inr (toks, durs)
          \<and> length toks = length durs)"
  using length_invariant [OF cal_example_speech] cal_example_speech
  by simp

section \<open>The steps of the scan\<close>

text \<open>
  C3. When the rounded end time of a phoneme is a key of the word boundary dictionary with
  the value true, the iteration for the phoneme ends with the state that the branch on the
  mark has left, extended by one \<open><space>\<close> token and one duration 0, whatever the last
  token of that state is.
\<close>

theorem word_boundary_insertion:
  assumes "wbd (py_round2 (maxTime phn)) = Some True"
    and "handle_phn retain_stress phn (py_round2 (fsub (maxTime phn) (minTime phn))) st
           = Inr (toks, durs)"
  shows "scan_phn retain_stress wbd st phn = Inr (toks @ [''<space>''], durs @ [0])"
  using assms by (simp add: scan_phn_def boundary_insert_def)

theorem word_boundary_insertion_witness:
  "word_boundary_dict [\<lparr>minTime = 0, maxTime = 1, mark = ''a''\<rparr>]
     (py_round2 (maxTime \<lparr>minTime = 0, maxTime = 1, mark = ''sil''\<rparr>)) = Some True
   \<and> handle_phn True \<lparr>minTime = 0, maxTime = 1, mark = ''sil''\<rparr>
        (py_round2 (fsub (maxTime \<lparr>minTime = 0, maxTime = 1, mark = ''sil''\<rparr>)
           (minTime \<lparr>minTime = 0, maxTime = 1, mark = ''sil''\<rparr>))) ([], [])
       = Inr ([''<space>''], [1])
   \<and> scan_phn True (word_boundary_dict [\<lparr>minTime = 0, maxTime = 1, mark = ''a''\<rparr>]) ([], [])
        \<lparr>minTime = 0, maxTime = 1, mark = ''sil''\<rparr>
       = Inr ([''<space>'', ''<space>''], [1, 0])"
proof -
  let ?phn = "\<lparr>minTime = 0, maxTime = 1, mark = ''sil''\<rparr>"
  let ?wbd = "word_boundary_dict [\<lparr>minTime = 0, maxTime = 1, mark = ''a''\<rparr>]"
  have b: "?wbd (py_round2 (maxTime ?phn)) = Some True"
    by (simp add: word_boundary_dict_def silence_marks_def float_examples)
  have h: "handle_phn True ?phn (py_round2 (fsub (maxTime ?phn) (minTime ?phn))) ([], [])
             = Inr ([''<space>''], [1])"
    by (simp add: handle_phn_def silence_marks_def float_examples)
  from word_boundary_insertion [of ?wbd ?phn True "([], [])" "[''<space>'']" "[1]", OF b h] b h
  show ?thesis
    by simp
qed

lemma phn_token_spec:
  assumes "m \<notin> set silence_marks"
  shows "phn_token retain_stress m = spec_token_text retain_stress m"
proof -
  from assms have "m \<noteq> []"
    by (auto simp: silence_marks_def)
  then show ?thesis
    by (simp add: phn_token_def spec_token_text_def spec_strip_stress_def Let_def)
qed

text \<open>
  C4. For a phoneme whose mark is not a silence mark, the iteration puts, right after the
  tokens and durations that it found, the token text of the specification and the rounded
  duration of the phoneme.
\<close>

theorem emitted_token_text:
  assumes "mark phn \<notin> set silence_marks"
  shows "\<exists>toks' durs'.
           scan_phn retain_stress wbd (toks, durs) phn = Inr (toks', durs')
           \<and> take (Suc (length toks)) toks' = toks @ [spec_token_text retain_stress (mark phn)]
           \<and> take (Suc (length durs)) durs'
               = durs @ [py_round2 (fsub (maxTime phn) (minTime phn))]"
  using assms
  by (simp add: scan_phn_def handle_phn_def boundary_insert_def phn_token_spec Let_def)

theorem emitted_token_text_witness:
  "''AE1'' \<notin> set silence_marks \<and> ''spn'' \<notin> set silence_marks
   \<and> spec_token_text False ''AE1'' = ''AE'' \<and> spec_token_text True ''AE1'' = ''AE1''
   \<and> spec_token_text False ''spn'' = ''<unk>'' \<and> spec_token_text True ''spn'' = ''<unk>''
   \<and> (\<exists>toks' durs'.
          scan_phn False Map.empty ([''<space>''], [1]) \<lparr>minTime = 0, maxTime = 1, mark = ''AE1''\<rparr>
            = Inr (toks', durs')
          \<and> take 2 toks' = [''<space>'', ''AE''])
   \<and> (\<exists>toks' durs'.
          scan_phn True Map.empty ([''<space>''], [1]) \<lparr>minTime = 0, maxTime = 1, mark = ''AE1''\<rparr>
            = Inr (toks', durs')
          \<and> take 2 toks' = [''<space>'', ''AE1''])
   \<and> (\<exists>toks' durs'.
          scan_phn True Map.empty ([''<space>''], [1]) \<lparr>minTime = 0, maxTime = 1, mark = ''spn''\<rparr>
            = Inr (toks', durs')
          \<and> take 2 toks' = [''<space>'', ''<unk>''])"
proof -
  have s: "''AE1'' \<notin> set silence_marks" "''spn'' \<notin> set silence_marks"
    by (simp_all add: silence_marks_def)
  have t: "spec_token_text False ''AE1'' = ''AE''" "spec_token_text True ''AE1'' = ''AE1''"
    "spec_token_text False ''spn'' = ''<unk>''" "spec_token_text True ''spn'' = ''<unk>''"
    by (simp_all add: spec_token_text_def spec_strip_stress_def isdigit_def)
  from emitted_token_text [of "\<lparr>minTime = 0, maxTime = 1, mark = ''AE1''\<rparr>" False Map.empty
      "[''<space>'']" "[1]"]
    emitted_token_text [of "\<lparr>minTime = 0, maxTime = 1, mark = ''AE1''\<rparr>" True Map.empty
      "[''<space>'']" "[1]"]
    emitted_token_text [of "\<lparr>minTime = 0, maxTime = 1, mark = ''spn''\<rparr>" True Map.empty
      "[''<space>'']" "[1]"]
    s t
  show ?thesis
    by (simp add: numeral_2_eq_2) blast
qed

section \<open>Utterances that are a pause only\<close>

text \<open>
  C5. For every file of a list on which \<open>cal_duration_by_tg\<close> returns: the scan of the
  file ends without an exception, and in the dictionaries as they are after the file's
  iteration the utterance id is absent from both when the tokens are exactly one
  \<open><space>\<close>, and mapped to the scanned tokens and durations for any other tokens. The
  returned dictionaries have these entries still, unless a later file of the list carries
  the same utterance id.
\<close>

theorem silence_only_discard:
  assumes "cal_duration_by_tg fromFile (before @ tg_file # after) retain_stress
             = Inr (idx2text, idx2duration)"
  shows "\<exists>toks durs t d.
           tg_utterance fromFile retain_stress tg_file = Inr (toks, durs)
           \<and> cal_duration_by_tg fromFile (before @ [tg_file]) retain_stress = Inr (t, d)
           \<and> (if toks = [''<space>'']
               then t (file_name_of tg_file) = None \<and> d (file_name_of tg_file) = None
               else t (file_name_of tg_file) = Some toks \<and> d (file_name_of tg_file) = Some durs)
           \<and> (file_name_of tg_file \<notin> file_name_of ` set after
                \<longrightarrow> idx2text (file_name_of tg_file) = t (file_name_of tg_file)
                  \<and> idx2duration (file_name_of tg_file) = d (file_name_of tg_file))"
proof -
  let ?k = "file_name_of tg_file"
  from assms obtain st0 st1 where
    pre: "cal_files fromFile retain_stress (Map.empty, Map.empty) before = Inr st0"
    and f: "cal_file fromFile retain_stress st0 tg_file = Inr st1"
    and rest: "cal_files fromFile retain_stress st1 after = Inr (idx2text, idx2duration)"
    unfolding cal_duration_by_tg_def cal_files_append
    by (auto split: sum.splits)
  from pre f have upto: "cal_duration_by_tg fromFile (before @ [tg_file]) retain_stress
      = Inr (fst st1, snd st1)"
    by (simp add: cal_duration_by_tg_def cal_files_append)
  from f cal_file_Inr [of fromFile retain_stress "fst st0" "snd st0" tg_file "fst st1" "snd st1"]
  obtain toks durs where
    u: "tg_utterance fromFile retain_stress tg_file = Inr (toks, durs)"
    and upd: "if toks = [''<space>'']
               then fst st1 = (fst st0)(?k := None) \<and> snd st1 = (snd st0)(?k := None)
               else fst st1 = (fst st0)(?k \<mapsto> toks) \<and> snd st1 = (snd st0)(?k \<mapsto> durs)"
    by auto
  from upd have here:
    "if toks = [''<space>'']
     then fst st1 ?k = None \<and> snd st1 ?k = None
     else fst st1 ?k = Some toks \<and> snd st1 ?k = Some durs"
    by (auto split: if_splits)
  have later: "idx2text ?k = fst st1 ?k \<and> idx2duration ?k = snd st1 ?k"
    if "?k \<notin> file_name_of ` set after"
    using cal_files_other_key [OF rest that] by simp
  from u upto here later show ?thesis
    by blast
qed

theorem silence_only_discard_witness:
  "cal_duration_by_tg example_fromFile
     [''a/utt1.TextGrid'', ''b/utt2.TextGrid'', ''c/utt3.TextGrid''] True =
     Inr ((Map.empty(''utt1'' \<mapsto> [''AH0'', ''<space>'']))
            (''utt2'' := None, ''utt3'' \<mapsto> [''<space>'', ''<space>'']),
          (Map.empty(''utt1'' \<mapsto> [1, 1]))(''utt2'' := None, ''utt3'' \<mapsto> [1, 0]))
   \<and> file_name_of ''b/utt2.TextGrid'' \<notin> file_name_of ` set [''c/utt3.TextGrid'']
   \<and> tg_utterance example_fromFile True ''b/utt2.TextGrid'' = Inr ([''<space>''], [1])
   \<and> ((Map.empty(''utt1'' \<mapsto> [''AH0'', ''<space>'']))
          (''utt2'' := None, ''utt3'' \<mapsto> [''<space>'', ''<space>''])) ''utt2'' = None
   \<and> ((Map.empty(''utt1'' \<mapsto> [1, 1 :: float]))(''utt2'' := None, ''utt3'' \<mapsto> [1, 0])) ''utt2'' = None
   \<and> tg_utterance example_fromFile True ''c/utt3.TextGrid'' = Inr ([''<space>'', ''<space>''], [1, 0])
   \<and> ((Map.empty(''utt1'' \<mapsto> [''AH0'', ''<space>'']))
          (''utt2'' := None, ''utt3'' \<mapsto> [''<space>'', ''<space>''])) ''utt3''
       = Some [''<space>'', ''<space>'']"
  using silence_only_discard [of example_fromFile "[''a/utt1.TextGrid'']" "''b/utt2.TextGrid''"
      "[''c/utt3.TextGrid'']" True, simplified, OF cal_example_three]
    silence_only_discard [of example_fromFile "[''a/utt1.TextGrid'', ''b/utt2.TextGrid'']"
      "''c/utt3.TextGrid''" "[]" True, simplified, OF cal_example_three]
    cal_example_three
  by (simp add: file_name_examples file_name_examples2 tg_silence_utterance
      tg_pause_word_utterance)

section \<open>The vocabulary\<close>

subsection \<open>First positions\<close>

lemma first_pos_less: "x \<in> set xs \<Longrightarrow> first_pos xs x < length xs"
  unfolding first_pos_def by (induction xs) auto

lemma first_pos_append_old: "k \<in> set xs \<Longrightarrow> first_pos (xs @ ys) k = first_pos xs k"
  unfolding first_pos_def by (simp add: takeWhile_append1 [of k])

lemma first_pos_append_new: "k \<notin> set xs \<Longrightarrow> first_pos (xs @ [k]) k = length xs"
  unfolding first_pos_def by (induction xs) auto

subsection \<open>The counter\<close>

lemma counter_add_keys:
  "map fst (counter_add kcs x) =
     (if x \<in> set (map fst kcs) then map fst kcs else map fst kcs @ [x])"
  by (induction kcs x rule: counter_add.induct) auto

lemma counter_add_map_of:
  "map_of (counter_add kcs x) =
     (map_of kcs)(x \<mapsto> (case map_of kcs x of None \<Rightarrow> 1 | Some c \<Rightarrow> Suc c))"
  by (induction kcs x rule: counter_add.induct) (auto simp: fun_eq_iff)

lemma counter_items_snoc: "counter_items (xs @ [x]) = counter_add (counter_items xs) x"
  by (simp add: counter_items_def)

lemma counter_items_map_of:
  "map_of (counter_items xs) k = (if k \<in> set xs then Some (count_list xs k) else None)"
proof (induction xs rule: rev_induct)
  case Nil
  show ?case by (simp add: counter_items_def)
next
  case (snoc x xs)
  then show ?case
    by (auto simp: counter_items_snoc counter_add_map_of)
qed

lemma counter_items_keys:
  "distinct (map fst (counter_items xs)) \<and> set (map fst (counter_items xs)) = set xs
   \<and> sorted_wrt (\<lambda>a b. first_pos xs a < first_pos xs b) (map fst (counter_items xs))"
proof (induction xs rule: rev_induct)
  case Nil
  show ?case by (simp add: counter_items_def)
next
  case (snoc x xs)
  let ?K = "map fst (counter_items xs)"
  from snoc have d: "distinct ?K" and s: "set ?K = set xs"
    and o: "sorted_wrt (\<lambda>a b. first_pos xs a < first_pos xs b) ?K"
    by simp_all
  have o': "sorted_wrt (\<lambda>a b. first_pos (xs @ [x]) a < first_pos (xs @ [x]) b) ?K"
    using o s by (auto elim!: sorted_wrt_mono_rel [rotated] simp: first_pos_append_old)
  show ?case
  proof (cases "x \<in> set xs")
    case True
    with d s o' show ?thesis
      by (auto simp: counter_items_snoc counter_add_keys)
  next
    case False
    have "\<forall>a \<in> set ?K. first_pos (xs @ [x]) a < first_pos (xs @ [x]) x"
      using s False by (auto simp: first_pos_append_old first_pos_append_new first_pos_less)
    with False d s o' show ?thesis
      by (auto simp: counter_items_snoc counter_add_keys sorted_wrt_append)
  qed
qed

lemma counter_items_count:
  assumes "(k, c) \<in> set (counter_items xs)"
  shows "c = count_list xs k"
proof -
  from counter_items_keys [of xs] have "distinct (map fst (counter_items xs))"
    by simp
  with assms have "map_of (counter_items xs) k = Some c"
    by simp
  then show ?thesis
    by (simp add: counter_items_map_of split: if_splits)
qed

subsection \<open>The stable sort\<close>

lemma insort_key_lex:
  assumes "sorted_wrt (\<lambda>a b. f a < f b \<or> (f a = f b \<and> T a b)) ys"
    and "\<forall>y \<in> set ys. T x y"
  shows "sorted_wrt (\<lambda>a b. f a < f b \<or> (f a = f b \<and> T a b)) (insort_key f x ys)"
  using assms
proof (induction ys)
  case Nil
  then show ?case by simp
next
  case (Cons y ys)
  show ?case
  proof (cases "f x \<le> f y")
    case True
    have "f x < f z \<or> (f x = f z \<and> T x z)" if "z \<in> set (y # ys)" for z
    proof -
      from that Cons.prems(1) have "f y \<le> f z"
        by auto
      with True have "f x \<le> f z"
        by simp
      moreover from that Cons.prems(2) have "T x z"
        by auto
      ultimately show ?thesis
        by auto
    qed
    with True Cons.prems(1) show ?thesis
      by simp
  next
    case False
    with Cons show ?thesis
      by (auto simp: set_insort_key)
  qed
qed

lemma sort_key_lex:
  assumes "sorted_wrt T xs"
  shows "sorted_wrt (\<lambda>a b. f a < f b \<or> (f a = f b \<and> T a b)) (sort_key f xs)"
  using assms
proof (induction xs)
  case Nil
  then show ?case by simp
next
  case (Cons x xs)
  then show ?case
    by (simp add: insort_key_lex)
qed

subsection \<open>The ranked phonemes\<close>

lemma ranked_phns_eq:
  "ranked_phns subset_idx2text =
     remove1 ''<unk>''
       (map fst (sort_key (\<lambda>x. - int (snd x))
          (counter_items (concat (map snd subset_idx2text)))))"
  by (simp add: ranked_phns_def Let_def remove1_idem)

lemma sorted_keys_distinct:
  "distinct (map fst (sort_key f (counter_items xs)))"
proof -
  have "mset (map fst (sort_key f (counter_items xs))) = mset (map fst (counter_items xs))"
    by simp
  then show ?thesis
    using counter_items_keys [of xs] by (metis mset_eq_imp_distinct_iff)
qed

lemma sorted_keys_ranked:
  "sorted_wrt (ranks_before xs) (map fst (sort_key (\<lambda>x. - int (snd x)) (counter_items xs)))"
proof -
  let ?f = "\<lambda>x :: 'a \<times> nat. - int (snd x)"
  let ?T = "\<lambda>a b :: 'a \<times> nat. first_pos xs (fst a) < first_pos xs (fst b)"
  from counter_items_keys [of xs] have "sorted_wrt ?T (counter_items xs)"
    by (simp add: sorted_wrt_map)
  then have "sorted_wrt (\<lambda>a b. ?f a < ?f b \<or> (?f a = ?f b \<and> ?T a b))
               (sort_key ?f (counter_items xs))"
    by (rule sort_key_lex)
  then have "sorted_wrt (\<lambda>a b. ranks_before xs (fst a) (fst b)) (sort_key ?f (counter_items xs))"
  proof (rule sorted_wrt_mono_rel [rotated])
    fix a b
    assume "a \<in> set (sort_key ?f (counter_items xs))" "b \<in> set (sort_key ?f (counter_items xs))"
      and r: "?f a < ?f b \<or> (?f a = ?f b \<and> ?T a b)"
    then have "(fst a, snd a) \<in> set (counter_items xs)" "(fst b, snd b) \<in> set (counter_items xs)"
      by simp_all
    then have "snd a = count_list xs (fst a)" "snd b = count_list xs (fst b)"
      by (simp_all add: counter_items_count)
    with r show "ranks_before xs (fst a) (fst b)"
      by (auto simp: ranks_before_def)
  qed
  then show ?thesis
    by (simp add: sorted_wrt_map)
qed

lemma ranked_phns_props:
  "distinct (ranked_phns subset_idx2text)
   \<and> set (ranked_phns subset_idx2text) = set (concat (map snd subset_idx2text)) - {''<unk>''}
   \<and> sorted_wrt (ranks_before (concat (map snd subset_idx2text))) (ranked_phns subset_idx2text)"
proof -
  let ?xs = "concat (map snd subset_idx2text)"
  let ?S = "map fst (sort_key (\<lambda>x. - int (snd x)) (counter_items ?xs))"
  have d: "distinct ?S"
    by (rule sorted_keys_distinct)
  have s: "set ?S = set ?xs"
    using counter_items_keys [of ?xs] by simp
  have r: "remove1 ''<unk>'' ?S = filter (\<lambda>y. y \<noteq> ''<unk>'') ?S"
    using d by (simp add: distinct_remove1_removeAll removeAll_filter_not_eq) metis
  have "sorted_wrt (ranks_before ?xs) (filter (\<lambda>y. y \<noteq> ''<unk>'') ?S)"
    by (rule sorted_wrt_filter) (rule sorted_keys_ranked)
  with d s r show ?thesis
    unfolding ranked_phns_eq by auto
qed

lemma subset_phn_vocab_nth:
  "subset_phn_vocab s ! 0 = ''<blank>''"
  "drop (length (subset_phn_vocab s) - 2) (subset_phn_vocab s) = [''<unk>'', ''<sos/eos>'']"
  by (simp_all add: subset_phn_vocab_def)

lemma subset_phn_vocab_distinct:
  "distinct (subset_phn_vocab s) =
     (''<blank>'' \<notin> set (concat (map snd s)) \<and> ''<sos/eos>'' \<notin> set (concat (map snd s)))"
  using ranked_phns_props [of s] by (auto simp: subset_phn_vocab_def)

lemma ranking_example:
  "ranked_phns [(''u1'', [''b'', ''a'', ''<unk>'']), (''u2'', [''c'', ''a'', ''c''])]
     = [''a'', ''c'', ''b'']"
  by (simp add: ranked_phns_def counter_items_def Let_def)

subsection \<open>The shape and the order of the vocabulary\<close>

text \<open>
  C6. The vocabulary that \<open>dump_subset_metadata\<close> writes has \<open><blank>\<close> at index 0 and
  ends with \<open><unk>\<close> and \<open><sos/eos>\<close>; it is free of duplicates exactly when no token
  sequence of the subset contains \<open><blank>\<close> or \<open><sos/eos>\<close>.
\<close>

theorem vocabulary_shape:
  "(let v = vocab_rows (dump_subset_metadata subset_indices idx2text idx2duration);
        tokens = concat (map snd (subset_of subset_indices idx2text))
    in v ! 0 = ''<blank>''
       \<and> drop (length v - 2) v = [''<unk>'', ''<sos/eos>'']
       \<and> distinct v = (''<blank>'' \<notin> set tokens \<and> ''<sos/eos>'' \<notin> set tokens))"
  by (simp add: dump_subset_metadata_def Let_def subset_phn_vocab_nth subset_phn_vocab_distinct
      del: set_concat)

theorem vocabulary_shape_witness:
  "(let v = vocab_rows (dump_subset_metadata [''utt1'']
              [''utt1'' \<mapsto> [''AH0'', ''<space>'']] [''utt1'' \<mapsto> [1, 1]])
    in v ! 0 = ''<blank>'' \<and> drop (length v - 2) v = [''<unk>'', ''<sos/eos>''] \<and> distinct v)"
  using vocabulary_shape [of "[''utt1'']" "[''utt1'' \<mapsto> [''AH0'', ''<space>'']]"
      "[''utt1'' \<mapsto> [1, 1]]"]
  by (simp add: Let_def subset_of_def)

text \<open>
  A subset whose only token is \<open><blank>\<close> has that entry twice in its vocabulary.
\<close>

theorem vocabulary_duplicate_counterexample:
  "\<not> distinct (vocab_rows (dump_subset_metadata [''utt1'']
        [''utt1'' \<mapsto> [''<blank>'']] [''utt1'' \<mapsto> [1]]))"
  by (simp add: dump_subset_metadata_def Let_def subset_of_def subset_phn_vocab_def
      ranked_phns_def counter_items_def)

text \<open>
  C7. The vocabulary is \<open><blank>\<close>, the ranked tokens, \<open><unk>\<close> and \<open><sos/eos>\<close>. The
  ranked tokens are the distinct tokens of the subset's concatenated token sequences other
  than \<open><unk>\<close>, and of any two of them the earlier one occurs more often, or equally often
  and first at an earlier position of the concatenation.
\<close>

theorem vocabulary_ranking:
  "(let subset_idx2text = subset_of subset_indices idx2text;
        v = vocab_rows (dump_subset_metadata subset_indices idx2text idx2duration);
        phns = concat (map snd subset_idx2text);
        ranked = ranked_phns subset_idx2text
    in v = [''<blank>''] @ ranked @ [''<unk>'', ''<sos/eos>'']
       \<and> distinct ranked
       \<and> set ranked = set phns - {''<unk>''}
       \<and> sorted_wrt (ranks_before phns) ranked)"
  using ranked_phns_props [of "subset_of subset_indices idx2text"]
  by (simp add: dump_subset_metadata_def Let_def subset_phn_vocab_def del: set_concat)

theorem vocabulary_ranking_witness:
  "vocab_rows (dump_subset_metadata [''u1'', ''u2'']
       [''u1'' \<mapsto> [''b'', ''a'', ''<unk>''], ''u2'' \<mapsto> [''c'', ''a'', ''c'']] Map.empty)
     = [''<blank>'', ''a'', ''c'', ''b'', ''<unk>'', ''<sos/eos>'']
   \<and> sorted_wrt (ranks_before [''b'', ''a'', ''<unk>'', ''c'', ''a'', ''c'']) [''a'', ''c'', ''b'']"
  using vocabulary_ranking [of "[''u1'', ''u2'']"
      "[''u1'' \<mapsto> [''b'', ''a'', ''<unk>''], ''u2'' \<mapsto> [''c'', ''a'', ''c'']]" Map.empty]
  by (simp add: Let_def subset_of_def ranking_example)

section \<open>The workers against the sequential run\<close>

subsection \<open>Slices\<close>

lemma slice_from_subset: "set (slice_from i n xs) \<subseteq> set xs"
  by (auto simp: slice_from_def)

lemma slice_from_distinct:
  assumes "distinct (map h xs)"
  shows "distinct (map h (slice_from i n xs))"
proof -
  let ?js = "filter (\<lambda>j. i \<le> j \<and> (j - i) mod n = 0) [0..<length xs]"
  have "inj_on (\<lambda>j. h (xs ! j)) (set ?js)"
  proof (rule inj_onI)
    fix j j'
    assume "j \<in> set ?js" "j' \<in> set ?js" and eq: "h (xs ! j) = h (xs ! j')"
    then have lt: "j < length xs" "j' < length xs"
      by simp_all
    from assms lt have "(map h xs ! j = map h xs ! j') = (j = j')"
      by (intro nth_eq_iff_index_eq) simp_all
    with eq lt show "j = j'"
      by simp
  qed
  moreover have "distinct ?js"
    by simp
  ultimately have "distinct (map (\<lambda>j. h (xs ! j)) ?js)"
    by (simp add: distinct_map)
  then show ?thesis
    by (simp add: slice_from_def comp_def)
qed

lemma slice_from_cover:
  assumes "0 < n" and "x \<in> set xs"
  shows "\<exists>i<n. x \<in> set (slice_from i n xs)"
proof -
  from assms(2) obtain j where j: "j < length xs" "xs ! j = x"
    by (auto simp: in_set_conv_nth)
  have "(j - j mod n) mod n = 0"
    by (simp add: minus_mod_eq_mult_div)
  with j have "x \<in> set (slice_from (j mod n) n xs)"
    by (auto simp: slice_from_def image_iff intro!: bexI [of _ j])
  with assms(1) show ?thesis
    by (auto intro!: exI [of _ "j mod n"])
qed

lemma func_args_subset: "c \<in> set (func_args n xs) \<Longrightarrow> set c \<subseteq> set xs"
  by (auto simp: func_args_def dest: subsetD [OF slice_from_subset])

lemma func_args_distinct:
  assumes "distinct (map h xs)" and "c \<in> set (func_args n xs)"
  shows "distinct (map h c)"
proof -
  from assms(2) obtain i where "c = slice_from i n xs"
    by (auto simp: func_args_def)
  with assms(1) show ?thesis
    by (simp add: slice_from_distinct)
qed

lemma func_args_cover:
  assumes "0 < n" and "x \<in> set xs"
  shows "\<exists>c \<in> set (func_args n xs). x \<in> set c"
proof -
  from slice_from_cover [OF assms] obtain i where i: "i < n" "x \<in> set (slice_from i n xs)"
    by blast
  from i(1) have "slice_from i n xs \<in> set (func_args n xs)"
    by (simp add: func_args_def)
  with i(2) show ?thesis
    by blast
qed

subsection \<open>The workers' results, gathered\<close>

lemma pool_map_ok:
  assumes "\<forall>x \<in> set xs. \<exists>y. g x = Inr y"
  shows "\<exists>ys. pool_map g xs = Inr ys \<and> length ys = length xs
           \<and> (\<forall>i < length xs. g (xs ! i) = Inr (ys ! i))"
  using assms
proof (induction xs)
  case Nil
  then show ?case by simp
next
  case (Cons x xs)
  from Cons.prems obtain y where y: "g x = Inr y"
    by auto
  from Cons.prems have "\<forall>x \<in> set xs. \<exists>y. g x = Inr y"
    by simp
  from Cons.IH [OF this] obtain ys where ys: "pool_map g xs = Inr ys"
    "length ys = length xs" "\<forall>i < length xs. g (xs ! i) = Inr (ys ! i)"
    by blast
  have "g ((x # xs) ! i) = Inr ((y # ys) ! i)" if "i < length (x # xs)" for i
    using that y ys(3) by (cases i) simp_all
  with y ys(1,2) show ?case
    by simp
qed

lemma pool_map_error:
  assumes "x \<in> set xs" and "g x = Inl e" and "\<forall>z e'. g z = Inl e' \<longrightarrow> e' = e"
  shows "pool_map g xs = Inl e"
  using assms(1)
proof (induction xs)
  case Nil
  then show ?case by simp
next
  case (Cons z xs)
  show ?case
  proof (cases "g z")
    case (Inl e')
    with assms(3) have "e' = e"
      by blast
    with Inl show ?thesis
      by simp
  next
    case (Inr y)
    with Cons.prems assms(2) have "x \<in> set xs"
      by auto
    from Cons.IH [OF this] Inr show ?thesis
      by simp
  qed
qed

lemma fold_map_add_agree:
  assumes "\<forall>r \<in> set rs. p r k = None \<or> p r k = v"
  shows "fold (\<lambda>r m. m ++ p r) rs m0 k = (if \<forall>r \<in> set rs. p r k = None then m0 k else v)"
  using assms
proof (induction rs arbitrary: m0)
  case Nil
  then show ?case by simp
next
  case (Cons r rs)
  from Cons.prems have rest: "\<forall>r \<in> set rs. p r k = None \<or> p r k = v"
    by simp
  note IH = Cons.IH [OF rest, of "m0 ++ p r"]
  show ?case
  proof (cases "p r k")
    case None
    with IH show ?thesis
      by (simp add: map_add_def)
  next
    case (Some w)
    with Cons.prems have v: "v = Some w"
      by simp
    with IH Some show ?thesis
      by (simp add: map_add_def)
  qed
qed

lemma gather_fst_snd:
  "fst (gather rs) = fold (\<lambda>r m. m ++ fst r) rs Map.empty"
  "snd (gather rs) = fold (\<lambda>r m. m ++ snd r) rs Map.empty"
proof -
  have "fst (fold (\<lambda>r acc. (fst acc ++ fst r, snd acc ++ snd r)) rs acc)
          = fold (\<lambda>r m. m ++ fst r) rs (fst acc)
      \<and> snd (fold (\<lambda>r acc. (fst acc ++ fst r, snd acc ++ snd r)) rs acc)
          = fold (\<lambda>r m. m ++ snd r) rs (snd acc)" for acc
    by (induction rs arbitrary: acc) simp_all
  then show "fst (gather rs) = fold (\<lambda>r m. m ++ fst r) rs Map.empty"
    and "snd (gather rs) = fold (\<lambda>r m. m ++ snd r) rs Map.empty"
    by (simp_all add: gather_def)
qed

subsection \<open>A worker's dictionaries against the sequential ones\<close>

lemma chunk_entries:
  assumes "distinct (map file_name_of fs)" and "set c \<subseteq> set fs"
    and "distinct (map file_name_of c)"
    and "cal_duration_by_tg fromFile c retain_stress = Inr r"
    and "cal_duration_by_tg fromFile fs retain_stress = Inr (T, D)"
  shows "(fst r k = None \<or> fst r k = T k) \<and> (snd r k = None \<or> snd r k = D k)"
proof (cases "find (\<lambda>f. file_name_of f = k) c")
  case None
  with cal_files_entries [OF assms(4) [unfolded cal_duration_by_tg_def] assms(3), of k]
  show ?thesis
    by simp
next
  case (Some g)
  then have g: "g \<in> set c" "file_name_of g = k"
    by (auto simp: find_Some_iff)
  with assms(2) have "g \<in> set fs"
    by blast
  from find_unique [OF assms(1) this] g(2)
  have "find (\<lambda>f. file_name_of f = k) fs = Some g"
    by simp
  with cal_files_entries [OF assms(5) [unfolded cal_duration_by_tg_def] assms(1), of k]
  have "T k = map_option fst (kept fromFile retain_stress g)"
    "D k = map_option snd (kept fromFile retain_stress g)"
    by simp_all
  with Some cal_files_entries [OF assms(4) [unfolded cal_duration_by_tg_def] assms(3), of k]
  show ?thesis
    by simp
qed

lemma chunk_hit:
  assumes "distinct (map file_name_of fs)" and "set c \<subseteq> set fs"
    and "distinct (map file_name_of c)"
    and "cal_duration_by_tg fromFile c retain_stress = Inr r"
    and "cal_duration_by_tg fromFile fs retain_stress = Inr (T, D)"
    and "f \<in> set c"
  shows "fst r (file_name_of f) = T (file_name_of f)
       \<and> snd r (file_name_of f) = D (file_name_of f)"
proof -
  from assms(2,6) have "f \<in> set fs"
    by blast
  from find_unique [OF assms(1) this]
    cal_files_entries [OF assms(5) [unfolded cal_duration_by_tg_def] assms(1), of "file_name_of f"]
  have "T (file_name_of f) = map_option fst (kept fromFile retain_stress f)"
    "D (file_name_of f) = map_option snd (kept fromFile retain_stress f)"
    by simp_all
  moreover from find_unique [OF assms(3,6)]
    cal_files_entries [OF assms(4) [unfolded cal_duration_by_tg_def] assms(3), of "file_name_of f"]
  have "fst r (file_name_of f) = map_option fst (kept fromFile retain_stress f)"
    "snd r (file_name_of f) = map_option snd (kept fromFile retain_stress f)"
    by simp_all
  ultimately show ?thesis
    by simp
qed

lemma absent_entries:
  assumes "distinct (map file_name_of fs)"
    and "cal_duration_by_tg fromFile fs retain_stress = Inr (T, D)"
    and "k \<notin> file_name_of ` set fs"
  shows "T k = None \<and> D k = None"
proof -
  have "find (\<lambda>f. file_name_of f = k) fs = None"
    unfolding find_None_iff
  proof
    assume "\<exists>x. x \<in> set fs \<and> file_name_of x = k"
    then obtain x where "x \<in> set fs" "file_name_of x = k"
      by blast
    then have "k \<in> file_name_of ` set fs"
      by (simp add: image_iff) metis
    with assms(3) show False
      by simp
  qed
  with cal_files_entries [OF assms(2) [unfolded cal_duration_by_tg_def] assms(1), of k]
  show ?thesis
    by simp
qed

text \<open>
  C8. For a list of at least one file whose utterance ids are pairwise distinct and for at
  least one worker, the dictionaries that \<open>main\<close> gathers from the workers' slices are the
  dictionaries of one sequential run over the whole list, and \<open>main\<close> raises when that run
  raises.
\<close>

theorem partition_correctness:
  assumes d: "distinct (map file_name_of tg_file_list)"
    and ne: "tg_file_list \<noteq> []"
    and n: "1 \<le> ncpu"
  shows "main_dicts fromFile retain_stress ncpu tg_file_list
           = cal_duration_by_tg fromFile tg_file_list retain_stress"
proof -
  let ?chunks = "func_args (nat ncpu) tg_file_list"
  let ?g = "\<lambda>chunk. cal_duration_by_tg fromFile chunk retain_stress"
  from n have pos: "0 < nat ncpu"
    by simp
  from ne n have main:
    "main_dicts fromFile retain_stress ncpu tg_file_list
       = (case pool_map ?g ?chunks of Inl e \<Rightarrow> Inl e | Inr rs \<Rightarrow> Inr (gather rs))"
    by (simp add: main_dicts_def)
  show ?thesis
  proof (cases "\<forall>f \<in> set tg_file_list. \<exists>r. tg_utterance fromFile retain_stress f = Inr r")
    case False
    then obtain f where f: "f \<in> set tg_file_list"
      and bad: "\<forall>r. tg_utterance fromFile retain_stress f \<noteq> Inr r"
      by blast
    from bad obtain e where e: "tg_utterance fromFile retain_stress f = Inl e"
      by (cases "tg_utterance fromFile retain_stress f") auto
    from cal_files_error [OF f e]
    have seq: "cal_duration_by_tg fromFile tg_file_list retain_stress = Inl IndexError"
      by (simp add: cal_duration_by_tg_def)
    from func_args_cover [OF pos f] obtain c where c: "c \<in> set ?chunks" "f \<in> set c"
      by blast
    from cal_files_error [OF c(2) e] have "?g c = Inl IndexError"
      by (simp add: cal_duration_by_tg_def)
    moreover have "\<forall>z e'. ?g z = Inl e' \<longrightarrow> e' = IndexError"
      by (auto simp: cal_duration_by_tg_def dest: cal_files_Inl)
    ultimately have "pool_map ?g ?chunks = Inl IndexError"
      using c(1) by (intro pool_map_error [of c]) simp_all
    with main seq show ?thesis
      by simp
  next
    case True
    from cal_files_ok [OF True] obtain st where
      "cal_duration_by_tg fromFile tg_file_list retain_stress = Inr st"
      unfolding cal_duration_by_tg_def by blast
    then have seq: "cal_duration_by_tg fromFile tg_file_list retain_stress = Inr (fst st, snd st)"
      by simp
    have "\<exists>y. ?g c = Inr y" if "c \<in> set ?chunks" for c
    proof -
      from func_args_subset [OF that] True
      have "\<forall>f \<in> set c. \<exists>r. tg_utterance fromFile retain_stress f = Inr r"
        by blast
      from cal_files_ok [OF this] show ?thesis
        unfolding cal_duration_by_tg_def by blast
    qed
    then have "\<forall>c \<in> set ?chunks. \<exists>y. ?g c = Inr y"
      by blast
    from pool_map_ok [OF this] obtain rs where pm: "pool_map ?g ?chunks = Inr rs"
      and len: "length rs = length ?chunks"
      and res: "\<forall>i < length ?chunks. ?g (?chunks ! i) = Inr (rs ! i)"
      by blast
    have chunk_of: "\<exists>c \<in> set ?chunks. ?g c = Inr r" if "r \<in> set rs" for r
    proof -
      from that obtain i where "i < length rs" "rs ! i = r"
        by (auto simp: in_set_conv_nth)
      with len res have "?chunks ! i \<in> set ?chunks" "?g (?chunks ! i) = Inr r"
        by auto
      then show ?thesis
        by blast
    qed
    have result_of: "\<exists>r \<in> set rs. ?g c = Inr r" if "c \<in> set ?chunks" for c
    proof -
      from that obtain i where "i < length ?chunks" "?chunks ! i = c"
        by (auto simp: in_set_conv_nth)
      with len res have "rs ! i \<in> set rs" "?g c = Inr (rs ! i)"
        by auto
      then show ?thesis
        by blast
    qed
    have agree: "(fst r k = None \<or> fst r k = fst st k) \<and> (snd r k = None \<or> snd r k = snd st k)"
      if "r \<in> set rs" for r k
    proof -
      from chunk_of [OF that] obtain c where c: "c \<in> set ?chunks" "?g c = Inr r"
        by blast
      from chunk_entries [OF d func_args_subset [OF c(1)] func_args_distinct [OF d c(1)] c(2) seq]
      show ?thesis .
    qed
    have hit: "\<exists>r \<in> set rs. fst r k = fst st k \<and> snd r k = snd st k"
      if "k \<in> file_name_of ` set tg_file_list" for k
    proof -
      from that obtain f where f: "f \<in> set tg_file_list" "file_name_of f = k"
        by blast
      from func_args_cover [OF pos f(1)] obtain c where c: "c \<in> set ?chunks" "f \<in> set c"
        by blast
      from result_of [OF c(1)] obtain r where r: "r \<in> set rs" "?g c = Inr r"
        by blast
      from chunk_hit [OF d func_args_subset [OF c(1)] func_args_distinct [OF d c(1)] r(2) seq c(2)]
        f(2) r(1) show ?thesis
        by auto
    qed
    have "fst (gather rs) k = fst st k \<and> snd (gather rs) k = snd st k" for k
    proof -
      from agree have a1: "\<forall>r \<in> set rs. fst r k = None \<or> fst r k = fst st k"
        and a2: "\<forall>r \<in> set rs. snd r k = None \<or> snd r k = snd st k"
        by blast+
      note g1 = fold_map_add_agree [of rs fst k "fst st k" Map.empty, OF a1]
      note g2 = fold_map_add_agree [of rs snd k "snd st k" Map.empty, OF a2]
      show ?thesis
      proof (cases "k \<in> file_name_of ` set tg_file_list")
        case True
        from hit [OF True] obtain r where "r \<in> set rs" "fst r k = fst st k" "snd r k = snd st k"
          by blast
        with g1 g2 show ?thesis
          by (auto simp: gather_fst_snd)
      next
        case False
        from absent_entries [OF d seq False] g1 g2 show ?thesis
          by (auto simp: gather_fst_snd)
      qed
    qed
    then have "gather rs = st"
      by (intro prod_eqI ext) simp_all
    with main pm seq show ?thesis
      by simp
  qed
qed

theorem partition_correctness_witness:
  "distinct (map file_name_of [''a/utt1.TextGrid'', ''b/utt2.TextGrid'', ''c/utt3.TextGrid''])
   \<and> [''a/utt1.TextGrid'', ''b/utt2.TextGrid'', ''c/utt3.TextGrid''] \<noteq> []
   \<and> (1 :: int) \<le> 2
   \<and> main_dicts example_fromFile True 2
        [''a/utt1.TextGrid'', ''b/utt2.TextGrid'', ''c/utt3.TextGrid'']
      = Inr (gather
          [([''utt1'' \<mapsto> [''AH0'', ''<space>''], ''utt3'' \<mapsto> [''<space>'', ''<space>'']],
            [''utt1'' \<mapsto> [1, 1], ''utt3'' \<mapsto> [1, 0]]),
           (Map.empty(''utt2'' := None), Map.empty(''utt2'' := None))])
   \<and> main_dicts example_fromFile True 2
        [''a/utt1.TextGrid'', ''b/utt2.TextGrid'', ''c/utt3.TextGrid'']
      = cal_duration_by_tg example_fromFile
          [''a/utt1.TextGrid'', ''b/utt2.TextGrid'', ''c/utt3.TextGrid''] True"
proof -
  have d: "distinct (map file_name_of
             [''a/utt1.TextGrid'', ''b/utt2.TextGrid'', ''c/utt3.TextGrid''])"
    by (simp add: file_name_examples file_name_examples2)
  have ne: "[''a/utt1.TextGrid'', ''b/utt2.TextGrid'', ''c/utt3.TextGrid''] \<noteq> []"
    by simp
  have n: "(1 :: int) \<le> 2"
    by simp
  have m: "main_dicts example_fromFile True 2
        [''a/utt1.TextGrid'', ''b/utt2.TextGrid'', ''c/utt3.TextGrid'']
      = Inr (gather
          [([''utt1'' \<mapsto> [''AH0'', ''<space>''], ''utt3'' \<mapsto> [''<space>'', ''<space>'']],
            [''utt1'' \<mapsto> [1, 1], ''utt3'' \<mapsto> [1, 0]]),
           (Map.empty(''utt2'' := None), Map.empty(''utt2'' := None))])"
    by (simp add: main_dicts_def func_args_examples cal_example_chunks)
  from partition_correctness [OF d ne n, of example_fromFile True] d ne n m show ?thesis
    by simp
qed

text \<open>
  Two files with the same utterance id, the second one a pause only: the sequential run
  ends without an entry for the id, and the two workers' dictionaries, gathered, hold the
  entry of the first file.
\<close>

theorem partition_counterexample:
  "main_dicts example_fromFile True 2 [''a/x.TextGrid'', ''b/x.TextGrid'']
     \<noteq> cal_duration_by_tg example_fromFile [''a/x.TextGrid'', ''b/x.TextGrid''] True"
proof
  assume eq: "main_dicts example_fromFile True 2 [''a/x.TextGrid'', ''b/x.TextGrid'']
     = cal_duration_by_tg example_fromFile [''a/x.TextGrid'', ''b/x.TextGrid''] True"
  have "main_dicts example_fromFile True 2 [''a/x.TextGrid'', ''b/x.TextGrid'']
     = Inr (gather [([''x'' \<mapsto> [''AH0'', ''<space>'']], [''x'' \<mapsto> [1, 1]]),
                    (Map.empty(''x'' := None), Map.empty(''x'' := None))])"
    by (simp add: main_dicts_def func_args_examples cal_example_same_id)
  with eq have "gather [([''x'' \<mapsto> [''AH0'', ''<space>'']], [''x'' \<mapsto> [1, 1 :: float]]),
                    (Map.empty(''x'' := None), Map.empty(''x'' := None))]
      = ([''x'' \<mapsto> [''AH0'', ''<space>'']](''x'' := None), [''x'' \<mapsto> [1, 1]](''x'' := None))"
    by (simp add: cal_example_same_id)
  then have "fst (gather [([''x'' \<mapsto> [''AH0'', ''<space>'']], [''x'' \<mapsto> [1, 1 :: float]]),
                    (Map.empty(''x'' := None), Map.empty(''x'' := None))]) ''x''
      = fst ([''x'' \<mapsto> [''AH0'', ''<space>'']](''x'' := None), [''x'' \<mapsto> [1, 1 :: float]](''x'' := None)) ''x''"
    by simp
  then show False
    by (simp add: gather_def map_add_def)
qed

section \<open>The tokenizer\<close>

lemma fold_update_keys:
  "fst ` set (fold (\<lambda>(idx, token) d. AList.update token idx d) items d0)
     = snd ` set items \<union> fst ` set d0"
proof (induction items arbitrary: d0)
  case Nil
  show ?case by simp
next
  case (Cons x items)
  obtain i t where x: "x = (i, t)"
    by (cases x)
  show ?case
    by (auto simp: x Cons.IH AList.dom_update)
qed

lemma reversed_dict_keys: "fst ` set (reversed_dict items) = snd ` set items"
  by (simp add: reversed_dict_def fold_update_keys)

lemma getitem_present:
  assumes "k \<in> fst ` set d"
  shows "\<exists>v. getitem d k = Inr v"
proof (cases "map_of d k")
  case None
  with assms show ?thesis
    by (simp add: map_of_eq_None_iff)
next
  case (Some v)
  then show ?thesis
    by (simp add: getitem_def)
qed

lemma getitem_absent:
  assumes "k \<notin> fst ` set d"
  shows "getitem d k = Inl KeyError"
  using assms by (simp add: getitem_def map_of_eq_None_iff [symmetric])

lemma getitem_Inl: "getitem d k = Inl e \<Longrightarrow> e = KeyError"
  by (simp add: getitem_def split: option.splits)

lemma register_tokens_has_reserved:
  assumes "has_reserved items"
  shows "\<exists>t. register_tokens path items = Inr t
           \<and> token_vocab t = path \<and> idx2token t = items
           \<and> token2idx t = reversed_dict items \<and> vocab_size t = length (reversed_dict items)
           \<and> getitem (reversed_dict items) ''<sos/eos>'' = Inr (sos_eos_idx t)
           \<and> getitem (reversed_dict items) ''<blank>'' = Inr (ignore_idx t)
           \<and> getitem (reversed_dict items) ''<unk>'' = Inr (unk_idx t)"
proof -
  let ?d = "reversed_dict items"
  from assms have "''<sos/eos>'' \<in> fst ` set ?d" "''<blank>'' \<in> fst ` set ?d"
    "''<unk>'' \<in> fst ` set ?d"
    by (simp_all add: has_reserved_def reserved_def reversed_dict_keys)
  then have "\<exists>s. getitem ?d ''<sos/eos>'' = Inr s" "\<exists>b. getitem ?d ''<blank>'' = Inr b"
    "\<exists>u. getitem ?d ''<unk>'' = Inr u"
    by (simp_all add: getitem_present)
  then obtain s b u where
    "getitem ?d ''<sos/eos>'' = Inr s" "getitem ?d ''<blank>'' = Inr b" "getitem ?d ''<unk>'' = Inr u"
    by blast
  then show ?thesis
    by (simp add: register_tokens_def Let_def)
qed

lemma register_tokens_lacks_reserved:
  assumes "\<not> has_reserved items"
  shows "register_tokens path items = Inl KeyError"
proof -
  let ?d = "reversed_dict items"
  from assms have "''<sos/eos>'' \<notin> fst ` set ?d \<or> ''<blank>'' \<notin> fst ` set ?d
    \<or> ''<unk>'' \<notin> fst ` set ?d"
    by (simp add: has_reserved_def reserved_def reversed_dict_keys)
  then have "getitem ?d ''<sos/eos>'' = Inl KeyError \<or> getitem ?d ''<blank>'' = Inl KeyError
    \<or> getitem ?d ''<unk>'' = Inl KeyError"
    by (auto dest: getitem_absent)
  moreover have "e = KeyError" if "getitem ?d k = Inl e" for k e
    using that by (rule getitem_Inl)
  ultimately show ?thesis
    by (auto simp: register_tokens_def Let_def split: sum.splits)
qed

lemma example_register:
  "register_tokens ''data/vocab'' (example_load ''data/vocab'') =
     Inr \<lparr>token_vocab = ''data/vocab'',
          idx2token = [(0, ''<blank>''), (1, ''a''), (2, ''<unk>''), (3, ''<sos/eos>'')],
          token2idx = [(''<blank>'', 0), (''a'', 1), (''<unk>'', 2), (''<sos/eos>'', 3)],
          vocab_size = 4, sos_eos_idx = 3, ignore_idx = 0, unk_idx = 2\<rparr>"
  "register_tokens ''exp/token_vocab'' (example_load ''exp/token_vocab'') = Inl KeyError"
  "register_tokens ''nowhere'' (example_load ''nowhere'') = Inl KeyError"
  by (simp_all add: register_tokens_def example_load_def reversed_dict_def getitem_def)

text \<open>
  C9. When the vocabulary that is loaded first has the three reserved symbols, the
  constructor loads nothing else and builds the object from it. When it lacks one of them,
  the constructor loads exactly one more time, from the path that \<open>parse_path_args\<close>
  gives for the original \<open>token_vocab\<close>; then every field of the object comes from that
  second vocabulary if it has the reserved symbols, and the \<open>KeyError\<close> reaches the caller
  if it has not.
\<close>

theorem Tokenizer_init_retry:
  "(let path0 = initial_token_vocab parse_path_args exists tv copy_path;
        path1 = parse_path_args tv;
        (events, res) = Tokenizer_init parse_path_args exists load_idx2data_file tv copy_path
    in if has_reserved (load_idx2data_file path0)
       then loaded events = [path0] \<and> res = register_tokens path0 (load_idx2data_file path0)
            \<and> (\<exists>t. res = Inr t)
       else loaded events = [path0, path1]
            \<and> res = register_tokens path1 (load_idx2data_file path1)
            \<and> (if has_reserved (load_idx2data_file path1)
                then \<exists>t. res = Inr t
                       \<and> token_vocab t = path1 \<and> idx2token t = load_idx2data_file path1
                       \<and> token2idx t = reversed_dict (idx2token t)
                       \<and> vocab_size t = length (token2idx t)
                       \<and> getitem (token2idx t) ''<sos/eos>'' = Inr (sos_eos_idx t)
                       \<and> getitem (token2idx t) ''<blank>'' = Inr (ignore_idx t)
                       \<and> getitem (token2idx t) ''<unk>'' = Inr (unk_idx t)
                else res = Inl KeyError))"
proof -
  let ?p0 = "initial_token_vocab parse_path_args exists tv copy_path"
  let ?p1 = "parse_path_args tv"
  show ?thesis
  proof (cases "has_reserved (load_idx2data_file ?p0)")
    case True
    from register_tokens_has_reserved [OF True, of ?p0]
    obtain t where "register_tokens ?p0 (load_idx2data_file ?p0) = Inr t"
      by blast
    with True show ?thesis
      by (simp add: Tokenizer_init_def Let_def split: option.splits)
  next
    case False
    then have first: "register_tokens ?p0 (load_idx2data_file ?p0) = Inl KeyError"
      by (rule register_tokens_lacks_reserved)
    show ?thesis
    proof (cases "has_reserved (load_idx2data_file ?p1)")
      case True
      from register_tokens_has_reserved [OF True, of ?p1]
      obtain t where t: "register_tokens ?p1 (load_idx2data_file ?p1) = Inr t"
        "token_vocab t = ?p1" "idx2token t = load_idx2data_file ?p1"
        "token2idx t = reversed_dict (load_idx2data_file ?p1)"
        "vocab_size t = length (reversed_dict (load_idx2data_file ?p1))"
        "getitem (reversed_dict (load_idx2data_file ?p1)) ''<sos/eos>'' = Inr (sos_eos_idx t)"
        "getitem (reversed_dict (load_idx2data_file ?p1)) ''<blank>'' = Inr (ignore_idx t)"
        "getitem (reversed_dict (load_idx2data_file ?p1)) ''<unk>'' = Inr (unk_idx t)"
        by blast
      with False True first show ?thesis
        by (simp add: Tokenizer_init_def Let_def split: option.splits)
    next
      case lacks: False
      then have "register_tokens ?p1 (load_idx2data_file ?p1) = Inl KeyError"
        by (rule register_tokens_lacks_reserved)
      with False lacks first show ?thesis
        by (simp add: Tokenizer_init_def Let_def)
    qed
  qed
qed

theorem Tokenizer_init_retry_witness:
  "Tokenizer_init (\<lambda>p. p) example_exists example_load ''data/vocab'' (Some ''exp'') =
     ([Load ''exp/token_vocab'', Load ''data/vocab'',
       Save ''exp/token_vocab'' [''<blank>'', ''a'', ''<unk>'', ''<sos/eos>'']],
      register_tokens ''data/vocab'' (example_load ''data/vocab''))
   \<and> Tokenizer_init (\<lambda>p. p) example_exists example_load ''data/vocab'' None =
     ([Load ''data/vocab''], register_tokens ''data/vocab'' (example_load ''data/vocab''))
   \<and> Tokenizer_init (\<lambda>p. p) example_exists example_load ''nowhere'' None =
     ([Load ''nowhere'', Load ''nowhere''], Inl KeyError)
   \<and> \<not> has_reserved (example_load ''exp/token_vocab'')
   \<and> has_reserved (example_load ''data/vocab'')
   \<and> \<not> has_reserved (example_load ''nowhere'')"
  using Tokenizer_init_retry [of "\<lambda>p. p" example_exists "''data/vocab''" "Some ''exp''" example_load]
    Tokenizer_init_retry [of "\<lambda>p. p" example_exists "''data/vocab''" None example_load]
    Tokenizer_init_retry [of "\<lambda>p. p" example_exists "''nowhere''" None example_load]
  by (simp add: Tokenizer_init_def initial_token_vocab_def join_token_vocab_def
      example_exists_def example_register Let_def)
    (simp add: has_reserved_def reserved_def example_load_def)

section \<open>The keys of the two dictionaries\<close>

lemma subset_of_keys: "map fst (subset_of subset_indices d) = filter (\<lambda>index. index \<in> dom d) subset_indices"
  by (induction subset_indices) (auto simp: subset_of_def split: option.splits)

text \<open>
  C10. When \<open>cal_duration_by_tg\<close> returns, its two dictionaries have the same keys, and so
  the two subset dictionaries that \<open>dump_subset_metadata\<close> filters from them, each by
  membership in one of the two, hold the same utterance ids in the same order.
\<close>

theorem same_key_set:
  assumes "cal_duration_by_tg fromFile tg_file_list retain_stress = Inr (idx2text, idx2duration)"
  shows "dom idx2text = dom idx2duration
       \<and> map fst (idx2text_rows (dump_subset_metadata subset_indices idx2text idx2duration))
         = map fst (idx2duration_rows (dump_subset_metadata subset_indices idx2text idx2duration))"
proof -
  have "aligned (Map.empty, Map.empty)"
    by (simp add: aligned_def)
  with assms have "aligned (idx2text, idx2duration)"
    unfolding cal_duration_by_tg_def by (rule cal_files_aligned)
  then have "dom idx2text = dom idx2duration"
    by (simp add: aligned_def)
  then show ?thesis
    by (simp add: dump_subset_metadata_def Let_def subset_of_keys)
qed

theorem same_key_set_witness:
  "cal_duration_by_tg example_fromFile [''a/utt1.TextGrid''] True =
     Inr ([''utt1'' \<mapsto> [''AH0'', ''<space>'']], [''utt1'' \<mapsto> [1, 1]])
   \<and> dom [''utt1'' \<mapsto> [''AH0'', ''<space>'']] = dom [''utt1'' \<mapsto> [1, 1 :: float]]
   \<and> map fst (idx2text_rows (dump_subset_metadata [''utt0'', ''utt1'']
         [''utt1'' \<mapsto> [''AH0'', ''<space>'']] [''utt1'' \<mapsto> [1, 1]])) = [''utt1'']
   \<and> map fst (idx2duration_rows (dump_subset_metadata [''utt0'', ''utt1'']
         [''utt1'' \<mapsto> [''AH0'', ''<space>'']] [''utt1'' \<mapsto> [1, 1]])) = [''utt1'']"
  using same_key_set [OF cal_example_speech, of "[''utt0'', ''utt1'']"] cal_example_speech
  by (simp add: dump_subset_metadata_def subset_of_def Let_def)

end
